theory Spec2Isabelle
  imports Main "HOL-Library.Product_Lexorder"
begin

section \<open>Python values used by the address book\<close>

subsection \<open>Strings\<close>

text \<open>
  A Python \<^verbatim>\<open>str\<close> is a sequence of Unicode code points, and \<^verbatim>\<open>len\<close> counts code
  points. A code point is modelled as a natural number and a string as the list of its code
  points. \<open>ascii\<close> turns an ASCII literal into such a list.
\<close>

type_synonym code_point = nat

type_synonym pystr = "code_point list"

definition ascii :: "string \<Rightarrow> pystr" where
  "ascii s = map of_char s"

text \<open>
  The classification of characters follows the Unicode character database, version 14.0
  (the one CPython 3.11 ships). \<open>decimal_ranges\<close> lists the code points of general category
  Nd (\<^verbatim>\<open>str.isdecimal\<close>, and \<^verbatim>\<open>\d\<close> in a \<^verbatim>\<open>str\<close> regular expression): every range starts
  at a digit zero and holds whole runs of ten consecutive digits. \<open>other_digit_ranges\<close> lists
  the code points whose Numeric_Type is Digit without being Decimal (superscripts, circled
  digits and so on); \<^verbatim>\<open>str.isdigit\<close> accepts both kinds.
\<close>

definition decimal_ranges :: "(code_point \<times> code_point) list" where
  "decimal_ranges =
   [(48, 57), (1632, 1641), (1776, 1785), (1984, 1993), (2406, 2415), (2534, 2543),
    (2662, 2671), (2790, 2799), (2918, 2927), (3046, 3055), (3174, 3183), (3302, 3311),
    (3430, 3439), (3558, 3567), (3664, 3673), (3792, 3801), (3872, 3881), (4160, 4169),
    (4240, 4249), (6112, 6121), (6160, 6169), (6470, 6479), (6608, 6617), (6784, 6793),
    (6800, 6809), (6992, 7001), (7088, 7097), (7232, 7241), (7248, 7257), (42528, 42537),
    (43216, 43225), (43264, 43273), (43472, 43481), (43504, 43513), (43600, 43609),
    (44016, 44025), (65296, 65305), (66720, 66729), (68912, 68921), (69734, 69743),
    (69872, 69881), (69942, 69951), (70096, 70105), (70384, 70393), (70736, 70745),
    (70864, 70873), (71248, 71257), (71360, 71369), (71472, 71481), (71904, 71913),
    (72016, 72025), (72784, 72793), (73040, 73049), (73120, 73129), (92768, 92777),
    (92864, 92873), (93008, 93017), (120782, 120831), (123200, 123209), (123632, 123641),
    (125264, 125273), (130032, 130041)]"

definition other_digit_ranges :: "(code_point \<times> code_point) list" where
  "other_digit_ranges =
   [(178, 179), (185, 185), (4969, 4977), (6618, 6618), (8304, 8304), (8308, 8313),
    (8320, 8329), (9312, 9320), (9332, 9340), (9352, 9360), (9450, 9450), (9461, 9469),
    (9471, 9471), (10102, 10110), (10112, 10120), (10122, 10130), (68160, 68163),
    (69216, 69224), (69714, 69722), (127232, 127242)]"

definition whitespace_ranges :: "(code_point \<times> code_point) list" where
  "whitespace_ranges =
   [(9, 13), (28, 32), (133, 133), (160, 160), (5760, 5760), (8192, 8202), (8232, 8233),
    (8239, 8239), (8287, 8287), (12288, 12288)]"

definition in_range :: "code_point \<Rightarrow> code_point \<times> code_point \<Rightarrow> bool" where
  "in_range c r = (fst r \<le> c \<and> c \<le> snd r)"

definition in_ranges :: "(code_point \<times> code_point) list \<Rightarrow> code_point \<Rightarrow> bool" where
  "in_ranges rs c = list_ex (in_range c) rs"

definition is_decimal :: "code_point \<Rightarrow> bool" where
  "is_decimal c = in_ranges decimal_ranges c"

definition is_digit :: "code_point \<Rightarrow> bool" where
  "is_digit c = (is_decimal c \<or> in_ranges other_digit_ranges c)"

definition is_space :: "code_point \<Rightarrow> bool" where
  "is_space c = in_ranges whitespace_ranges c"

definition is_ascii_digit :: "code_point \<Rightarrow> bool" where
  "is_ascii_digit c = (48 \<le> c \<and> c \<le> 57)"

text \<open>
  \<^verbatim>\<open>s.isdigit()\<close>, \<^verbatim>\<open>s.isdecimal()\<close> and \<^verbatim>\<open>s.isspace()\<close>: every character is of the class
  and there is at least one character.
\<close>

definition isdigit :: "pystr \<Rightarrow> bool" where
  "isdigit s = (s \<noteq> [] \<and> list_all is_digit s)"

definition isdecimal :: "pystr \<Rightarrow> bool" where
  "isdecimal s = (s \<noteq> [] \<and> list_all is_decimal s)"

definition isspace :: "pystr \<Rightarrow> bool" where
  "isspace s = (s \<noteq> [] \<and> list_all is_space s)"

subsection \<open>Exceptions\<close>

text \<open>
  A raised exception is a value: an operation that can raise returns \<open>error + 'a\<close>, with
  \<open>Inl\<close> the exception. \<open>ValueError\<close> carries its message.
\<close>

datatype error = ValueError string | OverflowError | KeyError | IndexError

section \<open>Fields\<close>

text \<open>
  A \<^verbatim>\<open>Field\<close> object has the single attribute \<^verbatim>\<open>value\<close>, never reassigned, so a constructed
  field is modelled by that value. \<^verbatim>\<open>Field.__str__\<close> is \<^verbatim>\<open>str(self.value)\<close>, which for a
  string value is the string itself.
\<close>

definition Field_str :: "pystr \<Rightarrow> pystr" where
  "Field_str v = v"

text \<open>\<^verbatim>\<open>Name.__init__\<close>: \<^verbatim>\<open>not value\<close> is true of a string exactly when it is empty.\<close>

definition Name :: "pystr \<Rightarrow> error + pystr" where
  "Name v = (if v = [] then Inl (ValueError ''The name cannot be empty.'') else Inr v)"

text \<open>\<^verbatim>\<open>Phone.__init__\<close>.\<close>

definition Phone :: "pystr \<Rightarrow> error + pystr" where
  "Phone v =
     (if \<not> isdigit v \<or> length v \<noteq> 10
      then Inl (ValueError ''The phone number must contain exactly 10 digits.'')
      else Inr v)"

section \<open>The standard library's \<^verbatim>\<open>datetime\<close>\<close>

subsection \<open>Naive datetimes, their order and adding days\<close>

text \<open>
  A naive \<^verbatim>\<open>datetime\<close> object is its seven fields. The constructor checks the date
  (\<^verbatim>\<open>_check_date_fields\<close>): the year in \<open>1..9999\<close>, the month in \<open>1..12\<close>, the day in
  \<open>1..days_in_month\<close>; the time fields default to zero.
\<close>

record datetime =
  year :: nat
  month :: nat
  day :: nat
  hour :: nat
  minute :: nat
  second :: nat
  microsecond :: nat

definition MINYEAR :: nat where
  "MINYEAR = 1"

definition MAXYEAR :: nat where
  "MAXYEAR = 9999"

definition is_leap :: "nat \<Rightarrow> bool" where
  "is_leap y = (y mod 4 = 0 \<and> (y mod 100 \<noteq> 0 \<or> y mod 400 = 0))"

text \<open>The table \<^verbatim>\<open>_DAYS_IN_MONTH\<close>; index 0 is a placeholder that is never read.\<close>

definition DAYS_IN_MONTH :: "nat list" where
  "DAYS_IN_MONTH = [0, 31, 28, 31, 30, 31, 30, 31, 31, 30, 31, 30, 31]"

definition days_in_month :: "nat \<Rightarrow> nat \<Rightarrow> nat" where
  "days_in_month y m = (if m = 2 \<and> is_leap y then 29 else DAYS_IN_MONTH ! m)"

definition datetime_new :: "nat \<Rightarrow> nat \<Rightarrow> nat \<Rightarrow> error + datetime" where
  "datetime_new y m d =
     (if \<not> (MINYEAR \<le> y \<and> y \<le> MAXYEAR) then Inl (ValueError ''year is out of range'')
      else if \<not> (1 \<le> m \<and> m \<le> 12) then Inl (ValueError ''month must be in 1..12'')
      else if \<not> (1 \<le> d \<and> d \<le> days_in_month y m)
        then Inl (ValueError ''day is out of range for month'')
      else Inr \<lparr>year = y, month = m, day = d, hour = 0, minute = 0, second = 0,
                 microsecond = 0\<rparr>)"

text \<open>
  Two naive datetimes are compared as the tuples of their fields, lexicographically
  (\<^verbatim>\<open>datetime._cmp\<close>).
\<close>

definition field_tuple :: "datetime \<Rightarrow> nat \<times> nat \<times> nat \<times> nat \<times> nat \<times> nat \<times> nat" where
  "field_tuple d = (year d, month d, day d, hour d, minute d, second d, microsecond d)"

definition datetime_le :: "datetime \<Rightarrow> datetime \<Rightarrow> bool" where
  "datetime_le a b = (field_tuple a \<le> field_tuple b)"

text \<open>
  \<^verbatim>\<open>d + timedelta(days=n)\<close> for \<open>n \<ge> 0\<close> moves the date \<open>n\<close> days forward in the proleptic
  Gregorian calendar and keeps the time of day; it raises \<^verbatim>\<open>OverflowError\<close> when the result
  would lie after year 9999. The library computes the date through day ordinals; the model
  steps one calendar day at a time, which gives the same date.
\<close>

definition next_day :: "datetime \<Rightarrow> datetime" where
  "next_day d =
     (if day d < days_in_month (year d) (month d) then d\<lparr>day := day d + 1\<rparr>
      else if month d < 12 then d\<lparr>month := month d + 1, day := 1\<rparr>
      else d\<lparr>year := year d + 1, month := 1, day := 1\<rparr>)"

primrec add_days :: "nat \<Rightarrow> datetime \<Rightarrow> datetime" where
  "add_days 0 d = d"
| "add_days (Suc n) d = next_day (add_days n d)"

definition datetime_add_days :: "datetime \<Rightarrow> nat \<Rightarrow> error + datetime" where
  "datetime_add_days d n =
     (let r = add_days n d in if MAXYEAR < year r then Inl OverflowError else Inr r)"

subsection \<open>\<^verbatim>\<open>strptime\<close> with the format \<^verbatim>\<open>%d.%m.%Y\<close>\<close>

text \<open>
  \<^verbatim>\<open>_strptime\<close> turns the format into a regular expression and matches it at the start of
  the input with \<^verbatim>\<open>re.match\<close>. The expressions it needs are built from single characters,
  character ranges, \<^verbatim>\<open>\d\<close> (any Unicode decimal digit), sequence and alternation.
  \<open>matches p s\<close> lists the remainders of \<open>s\<close> after every way of matching \<open>p\<close> at its start,
  in the order in which the backtracking matcher tries them; the match \<^verbatim>\<open>re.match\<close> finds
  is the first one.
\<close>

datatype regex =
  Chr code_point
  | Range code_point code_point
  | Digit
  | Seq regex regex
  | Alt regex regex

fun matches :: "regex \<Rightarrow> pystr \<Rightarrow> pystr list" where
  "matches (Chr a) s = (case s of [] \<Rightarrow> [] | c # t \<Rightarrow> if c = a then [t] else [])"
| "matches (Range a b) s =
     (case s of [] \<Rightarrow> [] | c # t \<Rightarrow> if a \<le> c \<and> c \<le> b then [t] else [])"
| "matches Digit s = (case s of [] \<Rightarrow> [] | c # t \<Rightarrow> if is_decimal c then [t] else [])"
| "matches (Seq p q) s = concat (map (matches q) (matches p s))"
| "matches (Alt p q) s = matches p s @ matches q s"

text \<open>A named group: the text it consumed, with the remainder.\<close>

definition named_group :: "regex \<Rightarrow> pystr \<Rightarrow> (pystr \<times> pystr) list" where
  "named_group p s = map (\<lambda>t. (take (length s - length t) s, t)) (matches p s)"

text \<open>
  \<^verbatim>\<open>%d\<close> is \<^verbatim>\<open>(?P<d>3[0-1]|[1-2]\d|0[1-9]|[1-9]| [1-9])\<close>,
  \<^verbatim>\<open>%m\<close> is \<^verbatim>\<open>(?P<m>1[0-2]|0[1-9]|[1-9])\<close> and
  \<^verbatim>\<open>%Y\<close> is \<^verbatim>\<open>(?P<Y>\d\d\d\d)\<close>; the dots of the format are escaped.
\<close>

definition re_d :: regex where
  "re_d = Alt (Seq (Chr 51) (Range 48 49))
         (Alt (Seq (Range 49 50) Digit)
         (Alt (Seq (Chr 48) (Range 49 57))
         (Alt (Range 49 57)
              (Seq (Chr 32) (Range 49 57)))))"

definition re_m :: regex where
  "re_m = Alt (Seq (Chr 49) (Range 48 50))
         (Alt (Seq (Chr 48) (Range 49 57))
              (Range 49 57))"

definition re_Y :: regex where
  "re_Y = Seq Digit (Seq Digit (Seq Digit Digit))"

definition format_matches :: "pystr \<Rightarrow> (pystr \<times> pystr \<times> pystr \<times> pystr) list" where
  "format_matches s =
     [(d, m, y, r5).
        (d, r1) \<leftarrow> named_group re_d s, r2 \<leftarrow> matches (Chr 46) r1,
        (m, r3) \<leftarrow> named_group re_m r2, r4 \<leftarrow> matches (Chr 46) r3,
        (y, r5) \<leftarrow> named_group re_Y r4]"

text \<open>
  \<^verbatim>\<open>int(text)\<close> on the text of a group: surrounding whitespace is stripped and each
  decimal digit, of any script, counts with its value. (A sign or an underscore, which
  \<^verbatim>\<open>int\<close> also reads, cannot occur in text these groups match.)
\<close>

definition digit_value :: "code_point \<Rightarrow> nat option" where
  "digit_value c =
     (case find (in_range c) decimal_ranges of
        None \<Rightarrow> None
      | Some r \<Rightarrow> Some ((c - fst r) mod 10))"

fun int_digits :: "nat \<Rightarrow> pystr \<Rightarrow> error + nat" where
  "int_digits acc [] = Inr acc"
| "int_digits acc (c # cs) =
     (case digit_value c of
        None \<Rightarrow> Inl (ValueError ''invalid literal for int()'')
      | Some v \<Rightarrow> int_digits (10 * acc + v) cs)"

definition strip :: "pystr \<Rightarrow> pystr" where
  "strip s = rev (dropWhile is_space (rev (dropWhile is_space s)))"

definition py_int :: "pystr \<Rightarrow> error + nat" where
  "py_int s =
     (if strip s = [] then Inl (ValueError ''invalid literal for int()'')
      else int_digits 0 (strip s))"

text \<open>
  \<^verbatim>\<open>datetime.strptime(s, "%d.%m.%Y")\<close>: no match, text left over after the match, and a
  date the constructor rejects are all \<^verbatim>\<open>ValueError\<close> (the messages are abbreviated).
\<close>

definition strptime :: "pystr \<Rightarrow> error + datetime" where
  "strptime s =
     (case format_matches s of
        [] \<Rightarrow> Inl (ValueError ''time data does not match format'')
      | (d, m, y, rest) # _ \<Rightarrow>
          if rest \<noteq> [] then Inl (ValueError ''unconverted data remains'')
          else (case py_int d of
                  Inl e \<Rightarrow> Inl e
                | Inr dv \<Rightarrow>
                   (case py_int m of
                      Inl e \<Rightarrow> Inl e
                    | Inr mv \<Rightarrow>
                       (case py_int y of
                          Inl e \<Rightarrow> Inl e
                        | Inr yv \<Rightarrow> datetime_new yv mv dv))))"

subsection \<open>\<^verbatim>\<open>strftime\<close> with the format \<^verbatim>\<open>%d.%m.%Y\<close>\<close>

text \<open>
  \<^verbatim>\<open>%d\<close> and \<^verbatim>\<open>%m\<close> are zero-padded to two digits. \<^verbatim>\<open>%Y\<close> is delegated to the C
  library: documented as four digits with leading zeros, it is written without padding by
  glibc, so CPython up to 3.12 on Linux renders year 999 as \<^verbatim>\<open>999\<close>, while other platforms
  and later versions render \<^verbatim>\<open>0999\<close>. The model takes the platform's behaviour as a
  parameter.
\<close>

datatype year_format = Zero_padded | Unpadded

function str_of_nat :: "nat \<Rightarrow> pystr" where
  "str_of_nat n = (if n < 10 then [48 + n] else str_of_nat (n div 10) @ [48 + n mod 10])"
  by pat_completeness auto
termination
  by (relation "measure id") auto

declare str_of_nat.simps [simp del]

definition zfill :: "nat \<Rightarrow> pystr \<Rightarrow> pystr" where
  "zfill w s = replicate (w - length s) 48 @ s"

definition strftime_dmY :: "year_format \<Rightarrow> datetime \<Rightarrow> pystr" where
  "strftime_dmY yf d =
     zfill 2 (str_of_nat (day d)) @ [46] @ zfill 2 (str_of_nat (month d)) @ [46] @
     (case yf of Zero_padded \<Rightarrow> zfill 4 (str_of_nat (year d))
               | Unpadded \<Rightarrow> str_of_nat (year d))"

section \<open>The birthday field\<close>

text \<open>
  \<^verbatim>\<open>Birthday.__init__\<close> stores the parsed \<^verbatim>\<open>datetime\<close> and replaces any \<^verbatim>\<open>ValueError\<close> of
  \<^verbatim>\<open>strptime\<close> by its own.
\<close>

definition Birthday :: "pystr \<Rightarrow> error + datetime" where
  "Birthday v =
     (case strptime v of
        Inl (ValueError _) \<Rightarrow> Inl (ValueError ''Invalid date format. Use DD.MM.YYYY'')
      | Inl e \<Rightarrow> Inl e
      | Inr d \<Rightarrow> Inr d)"

text \<open>
  \<^verbatim>\<open>Birthday\<close> does not override \<^verbatim>\<open>Field.__str__\<close>, so \<^verbatim>\<open>str\<close> of a birthday is \<^verbatim>\<open>str\<close> of the
  stored \<^verbatim>\<open>datetime\<close>: \<^verbatim>\<open>isoformat(sep=' ')\<close>, that is \<^verbatim>\<open>%04d-%02d-%02d %02d:%02d:%02d\<close>
  followed by \<^verbatim>\<open>.%06d\<close> when the microsecond is not zero. This formatting is Python's own
  and pads the year on every platform.
\<close>

definition datetime_str :: "datetime \<Rightarrow> pystr" where
  "datetime_str d =
     zfill 4 (str_of_nat (year d)) @ [45] @ zfill 2 (str_of_nat (month d)) @ [45] @
     zfill 2 (str_of_nat (day d)) @ [32] @
     zfill 2 (str_of_nat (hour d)) @ [58] @ zfill 2 (str_of_nat (minute d)) @ [58] @
     zfill 2 (str_of_nat (second d)) @
     (if microsecond d \<noteq> 0 then [46] @ zfill 6 (str_of_nat (microsecond d)) else [])"

definition Birthday_str :: "datetime \<Rightarrow> pystr" where
  "Birthday_str v = datetime_str v"

section \<open>Records\<close>

text \<open>
  A \<^verbatim>\<open>Record\<close> object is its three attributes. A method mutates the object and either
  returns or raises: it is modelled as a function from the record before the call to the
  outcome (the exception raised or the value returned) paired with the record after the call.
\<close>

record Record =
  name :: pystr
  phones :: "pystr list"
  birthday :: "datetime option"

definition Record_init :: "pystr \<Rightarrow> error + Record" where
  "Record_init nm =
     (case Name nm of
        Inl e \<Rightarrow> Inl e
      | Inr n \<Rightarrow> Inr \<lparr>name = n, phones = [], birthday = None\<rparr>)"

definition add_phone :: "Record \<Rightarrow> pystr \<Rightarrow> (error + unit) \<times> Record" where
  "add_phone r phone =
     (case Phone phone of
        Inl e \<Rightarrow> (Inl e, r)
      | Inr p \<Rightarrow> (Inr (), r\<lparr>phones := phones r @ [p]\<rparr>))"

text \<open>
  \<^verbatim>\<open>list.remove(x)\<close> deletes the first element equal to \<open>x\<close> and raises \<^verbatim>\<open>ValueError\<close> when
  there is none; \<^verbatim>\<open>xs[i] = v\<close> raises \<^verbatim>\<open>IndexError\<close> out of range. \<^verbatim>\<open>Phone\<close> defines no
  equality, so \<^verbatim>\<open>remove\<close> compares objects by identity; the object handed to it in
  \<^verbatim>\<open>remove_phone\<close> is the first one of the list with the given value, so the element removed
  is the first one with that value, which is what removal by value gives.
\<close>

definition list_remove :: "'a \<Rightarrow> 'a list \<Rightarrow> error + 'a list" where
  "list_remove x xs =
     (if x \<in> set xs then Inr (remove1 x xs) else Inl (ValueError ''x not in list''))"

definition list_setitem :: "'a list \<Rightarrow> nat \<Rightarrow> 'a \<Rightarrow> error + 'a list" where
  "list_setitem xs i v = (if i < length xs then Inr (xs[i := v]) else Inl IndexError)"

text \<open>\<^verbatim>\<open>remove_phone\<close>: the loop runs over the phones left to iterate.\<close>

fun remove_phone_loop :: "pystr list \<Rightarrow> Record \<Rightarrow> pystr \<Rightarrow> (error + bool) \<times> Record" where
  "remove_phone_loop [] r phone = (Inr False, r)"
| "remove_phone_loop (p # ps) r phone =
     (if p = phone
      then (case list_remove p (phones r) of
              Inl e \<Rightarrow> (Inl e, r)
            | Inr xs \<Rightarrow> (Inr True, r\<lparr>phones := xs\<rparr>))
      else remove_phone_loop ps r phone)"

definition remove_phone :: "Record \<Rightarrow> pystr \<Rightarrow> (error + bool) \<times> Record" where
  "remove_phone r phone = remove_phone_loop (phones r) r phone"

text \<open>\<^verbatim>\<open>edit_phone\<close>: the loop of \<^verbatim>\<open>enumerate\<close> runs over the indices from \<open>i\<close> on.\<close>

function edit_phone_loop ::
  "nat \<Rightarrow> Record \<Rightarrow> pystr \<Rightarrow> pystr \<Rightarrow> (error + bool) \<times> Record" where
  "edit_phone_loop i r old_phone new_phone =
     (if i < length (phones r)
      then (if phones r ! i = old_phone
            then (case Phone new_phone of
                    Inl e \<Rightarrow> (Inl e, r)
                  | Inr p \<Rightarrow>
                     (case list_setitem (phones r) i p of
                        Inl e \<Rightarrow> (Inl e, r)
                      | Inr xs \<Rightarrow> (Inr True, r\<lparr>phones := xs\<rparr>)))
            else edit_phone_loop (Suc i) r old_phone new_phone)
      else (Inr False, r))"
  by pat_completeness auto
termination
  by (relation "measure (\<lambda>(i, r, old_phone, new_phone). length (phones r) - i)") auto

declare edit_phone_loop.simps [simp del]

definition edit_phone :: "Record \<Rightarrow> pystr \<Rightarrow> pystr \<Rightarrow> (error + bool) \<times> Record" where
  "edit_phone r old_phone new_phone = edit_phone_loop 0 r old_phone new_phone"

definition add_birthday :: "Record \<Rightarrow> pystr \<Rightarrow> (error + unit) \<times> Record" where
  "add_birthday r b =
     (case Birthday b of
        Inl e \<Rightarrow> (Inl e, r)
      | Inr d \<Rightarrow> (Inr (), r\<lparr>birthday := Some d\<rparr>))"

text \<open>\<^verbatim>\<open>Record.__str__\<close>; \<open>join sep xs\<close> is \<^verbatim>\<open>sep.join(xs)\<close>.\<close>

fun join :: "pystr \<Rightarrow> pystr list \<Rightarrow> pystr" where
  "join sep [] = []"
| "join sep [x] = x"
| "join sep (x # y # zs) = x @ sep @ join sep (y # zs)"

definition Record_str :: "year_format \<Rightarrow> Record \<Rightarrow> pystr" where
  "Record_str yf r =
     (let phone_str = join (ascii '', '') (phones r);
          birthday_str = (case birthday r of
                            Some b \<Rightarrow> ascii '', Birthday: '' @ strftime_dmY yf b
                          | None \<Rightarrow> [])
      in ascii ''Contact name: '' @ name r @ ascii '', phones: '' @ phone_str @ birthday_str)"

section \<open>The address book\<close>

text \<open>
  \<^verbatim>\<open>AddressBook\<close> is a \<^verbatim>\<open>UserDict\<close>: its state is the dictionary \<^verbatim>\<open>data\<close>. A Python
  dictionary iterates in insertion order, and assigning to a key that is present keeps the
  key's position: it is modelled as an association list. \<^verbatim>\<open>del d[k]\<close> raises \<^verbatim>\<open>KeyError\<close>
  when the key is missing; \<^verbatim>\<open>d.get(k)\<close> returns \<^verbatim>\<open>None\<close> then.
\<close>

type_synonym AddressBook = "(pystr \<times> Record) list"

primrec dict_setitem :: "('k \<times> 'v) list \<Rightarrow> 'k \<Rightarrow> 'v \<Rightarrow> ('k \<times> 'v) list" where
  "dict_setitem [] k v = [(k, v)]"
| "dict_setitem (p # ps) k v = (if fst p = k then (k, v) # ps else p # dict_setitem ps k v)"

definition dict_get :: "('k \<times> 'v) list \<Rightarrow> 'k \<Rightarrow> 'v option" where
  "dict_get d k = map_of d k"

definition dict_contains :: "('k \<times> 'v) list \<Rightarrow> 'k \<Rightarrow> bool" where
  "dict_contains d k = (k \<in> set (map fst d))"

definition dict_delitem :: "('k \<times> 'v) list \<Rightarrow> 'k \<Rightarrow> error + ('k \<times> 'v) list" where
  "dict_delitem d k =
     (if dict_contains d k then Inr (filter (\<lambda>p. fst p \<noteq> k) d) else Inl KeyError)"

definition dict_values :: "('k \<times> 'v) list \<Rightarrow> 'v list" where
  "dict_values d = map snd d"

text \<open>
  The methods \<^verbatim>\<open>find\<close> and \<^verbatim>\<open>delete\<close> are named \<open>find_record\<close> and \<open>delete_record\<close> here.
\<close>

definition add_record :: "AddressBook \<Rightarrow> Record \<Rightarrow> AddressBook" where
  "add_record book record = dict_setitem book (name record) record"

definition find_record :: "AddressBook \<Rightarrow> pystr \<Rightarrow> Record option" where
  "find_record book nm = dict_get book nm"

definition delete_record :: "AddressBook \<Rightarrow> pystr \<Rightarrow> error + AddressBook" where
  "delete_record book nm = (if dict_contains book nm then dict_delitem book nm else Inr book)"

text \<open>
  \<^verbatim>\<open>get_upcoming_birthdays\<close>; \<open>now\<close> is what \<^verbatim>\<open>datetime.now()\<close> returns at the call. The loop
  runs over the values of the dictionary and appends to the list it returns.
\<close>

fun upcoming_loop :: "datetime \<Rightarrow> datetime \<Rightarrow> Record list \<Rightarrow> Record list \<Rightarrow> Record list" where
  "upcoming_loop today next_week [] upcoming_birthdays = upcoming_birthdays"
| "upcoming_loop today next_week (record # rest) upcoming_birthdays =
     (case birthday record of
        None \<Rightarrow> upcoming_loop today next_week rest upcoming_birthdays
      | Some b \<Rightarrow>
          if datetime_le today b \<and> datetime_le b next_week
          then upcoming_loop today next_week rest (upcoming_birthdays @ [record])
          else upcoming_loop today next_week rest upcoming_birthdays)"

definition get_upcoming_birthdays :: "datetime \<Rightarrow> AddressBook \<Rightarrow> error + Record list" where
  "get_upcoming_birthdays now book =
     (let today = now in
      case datetime_add_days today 7 of
        Inl e \<Rightarrow> Inl e
      | Inr next_week \<Rightarrow> Inr (upcoming_loop today next_week (dict_values book) []))"

section \<open>Sequences of calls on a record\<close>

text \<open>
  A caller holds a record and calls its public methods one after the other; a call that
  raises leaves the record to the caller as it is at that moment. \<open>after_call\<close> is the record
  after one call and \<open>after_calls\<close> the record after a sequence of them.
\<close>

datatype call =
  Add_phone pystr
  | Remove_phone pystr
  | Edit_phone pystr pystr
  | Add_birthday pystr

fun after_call :: "Record \<Rightarrow> call \<Rightarrow> Record" where
  "after_call r (Add_phone phone) = snd (add_phone r phone)"
| "after_call r (Remove_phone phone) = snd (remove_phone r phone)"
| "after_call r (Edit_phone old_phone new_phone) = snd (edit_phone r old_phone new_phone)"
| "after_call r (Add_birthday b) = snd (add_birthday r b)"

definition after_calls :: "Record \<Rightarrow> call list \<Rightarrow> Record" where
  "after_calls r cs = foldl after_call r cs"

section \<open>Properties of the fields\<close>

lemma ascii_simps: "ascii [] = []" "ascii (c # cs) = of_char c # ascii cs"
  by (simp_all add: ascii_def)

lemma ascii_digit_is_decimal: "is_ascii_digit c \<Longrightarrow> is_decimal c"
  by (simp add: is_ascii_digit_def is_decimal_def in_ranges_def in_range_def decimal_ranges_def)

lemma decimal_is_digit: "is_decimal c \<Longrightarrow> is_digit c"
  by (simp add: is_digit_def)

lemma is_digit_ascii: "is_ascii_digit c \<Longrightarrow> is_digit c"
  by (simp add: ascii_digit_is_decimal decimal_is_digit)

lemma isdigit_iff: "isdigit s \<longleftrightarrow> s \<noteq> [] \<and> (\<forall>c\<in>set s. is_digit c)"
  by (simp add: isdigit_def list_all_iff)

lemma Phone_Inr_iff: "Phone s = Inr p \<longleftrightarrow> p = s \<and> length s = 10 \<and> isdigit s"
  by (auto simp: Phone_def)

lemma Phone_12345:
  "Phone (ascii ''12345'') = Inl (ValueError ''The phone number must contain exactly 10 digits.'')"
  by (simp add: Phone_def ascii_def)

lemma Phone_1112223333: "Phone (ascii ''1112223333'') = Inr (ascii ''1112223333'')"
  by (simp add: Phone_def isdigit_def ascii_def is_digit_ascii is_ascii_digit_def)

lemma Phone_superscript_two:
  "Phone [178, 178, 178, 178, 178, 178, 178, 178, 178, 178] =
     Inr [178, 178, 178, 178, 178, 178, 178, 178, 178, 178]"
  by (simp add: Phone_def isdigit_def is_digit_def in_ranges_def in_range_def
      other_digit_ranges_def)

lemma not_decimal_superscript_two: "\<not> is_decimal 178"
  by (simp add: is_decimal_def in_ranges_def in_range_def decimal_ranges_def)

text \<open>
  Claim C3 as stated fails: superscript two (U+00B2) is not a decimal digit, of ASCII or of
  any script, and a string of ten of them is accepted by \<^verbatim>\<open>Phone\<close>.
\<close>

theorem Phone_non_decimal_counterexample:
  "\<not> is_decimal 178 \<and> \<not> is_ascii_digit 178 \<and>
   length [178, 178, 178, 178, 178, 178, 178, 178, 178, 178 :: code_point] = 10 \<and>
   Phone [178, 178, 178, 178, 178, 178, 178, 178, 178, 178] =
     Inr [178, 178, 178, 178, 178, 178, 178, 178, 178, 178]"
proof -
  have "\<not> is_ascii_digit 178"
    by (simp add: is_ascii_digit_def)
  with not_decimal_superscript_two Phone_superscript_two show ?thesis
    by simp
qed

text \<open>
  Claim C3, amended. The digits of \<^verbatim>\<open>Phone\<close> are the characters for which \<^verbatim>\<open>str.isdigit\<close>
  holds: the decimal digits of every script, the ASCII digits among them, and the other
  characters of Numeric_Type Digit such as the superscript digits. A string of exactly ten
  such digits is accepted by \<^verbatim>\<open>Phone\<close> and the phone renders as that string; a string of
  another length, or with a character that is not such a digit, is rejected with
  \<^verbatim>\<open>ValueError\<close>.
\<close>

theorem Phone_ten_digits:
  "(length s = 10 \<and> (\<forall>c\<in>set s. is_digit c) \<longrightarrow> Phone s = Inr s \<and> Field_str s = s) \<and>
   (length s \<noteq> 10 \<or> (\<exists>c\<in>set s. \<not> is_digit c) \<longrightarrow>
      Phone s = Inl (ValueError ''The phone number must contain exactly 10 digits.'')) \<and>
   (\<forall>c. is_ascii_digit c \<longrightarrow> is_decimal c) \<and> (\<forall>c. is_decimal c \<longrightarrow> is_digit c)"
proof (intro conjI impI allI)
  assume h: "length s = 10 \<and> (\<forall>c\<in>set s. is_digit c)"
  then have "s \<noteq> []"
    by auto
  with h have "isdigit s"
    by (simp add: isdigit_iff)
  with h show "Phone s = Inr s"
    by (simp add: Phone_Inr_iff)
next
  show "Field_str s = s"
    by (simp add: Field_str_def)
next
  assume "length s \<noteq> 10 \<or> (\<exists>c\<in>set s. \<not> is_digit c)"
  then have "\<not> isdigit s \<or> length s \<noteq> 10"
    by (auto simp: isdigit_iff)
  then show "Phone s = Inl (ValueError ''The phone number must contain exactly 10 digits.'')"
    by (simp add: Phone_def)
next
  fix c
  assume "is_ascii_digit c"
  then show "is_decimal c"
    by (rule ascii_digit_is_decimal)
next
  fix c
  assume "is_decimal c"
  then show "is_digit c"
    by (rule decimal_is_digit)
qed

theorem Phone_ten_digits_witness:
  "Phone (ascii ''1234567890'') = Inr (ascii ''1234567890'') \<and>
   Phone [178, 178, 178, 178, 178, 178, 178, 178, 178, 178] =
     Inr [178, 178, 178, 178, 178, 178, 178, 178, 178, 178] \<and>
   Phone (ascii ''12345'') = Inl (ValueError ''The phone number must contain exactly 10 digits.'') \<and>
   Phone (ascii ''12345abcde'') =
     Inl (ValueError ''The phone number must contain exactly 10 digits.'') \<and>
   is_decimal 48 \<and> is_digit 48"
proof -
  let ?two = "[178, 178, 178, 178, 178, 178, 178, 178, 178, 178 :: code_point]"
  have a: "length (ascii ''1234567890'') = 10 \<and> (\<forall>c\<in>set (ascii ''1234567890''). is_digit c)"
    by (simp add: ascii_simps is_digit_ascii is_ascii_digit_def)
  have "is_digit 178"
    by (simp add: is_digit_def in_ranges_def in_range_def other_digit_ranges_def)
  then have t: "length ?two = 10 \<and> (\<forall>c\<in>set ?two. is_digit c)"
    by simp
  have b: "length (ascii ''12345'') \<noteq> 10 \<or> (\<exists>c\<in>set (ascii ''12345''). \<not> is_digit c)"
    by (simp add: ascii_simps)
  have "\<not> is_digit 97"
    by (simp add: is_digit_def is_decimal_def in_ranges_def in_range_def decimal_ranges_def
        other_digit_ranges_def)
  then have c: "length (ascii ''12345abcde'') \<noteq> 10 \<or>
      (\<exists>c\<in>set (ascii ''12345abcde''). \<not> is_digit c)"
    by (simp add: ascii_simps)
  have d: "is_ascii_digit 48"
    by (simp add: is_ascii_digit_def)
  from Phone_ten_digits [of "ascii ''1234567890''"] a
  have 1: "Phone (ascii ''1234567890'') = Inr (ascii ''1234567890'')"
    by blast
  from Phone_ten_digits [of ?two] t have 2: "Phone ?two = Inr ?two"
    by blast
  from Phone_ten_digits [of "ascii ''12345''"] b
  have 3: "Phone (ascii ''12345'') =
      Inl (ValueError ''The phone number must contain exactly 10 digits.'')"
    by blast
  from Phone_ten_digits [of "ascii ''12345abcde''"] c
  have 4: "Phone (ascii ''12345abcde'') =
      Inl (ValueError ''The phone number must contain exactly 10 digits.'')"
    by blast
  from Phone_ten_digits [of "[]"] d have 5: "is_decimal 48 \<and> is_digit 48"
    by blast
  from 1 2 3 4 5 show ?thesis
    by blast
qed

text \<open>
  Claim C6 as stated fails: a name made of one space is whitespace-only and is accepted.
\<close>

theorem Name_whitespace_counterexample:
  "isspace (ascii '' '') \<and> Name (ascii '' '') = Inr (ascii '' '')"
  by (simp add: ascii_simps isspace_def is_space_def in_ranges_def in_range_def
      whitespace_ranges_def Name_def)

text \<open>
  Claim C6, amended. \<^verbatim>\<open>Name\<close> rejects the empty string with \<^verbatim>\<open>ValueError\<close> and accepts
  every other string, whitespace-only ones included, storing it unchanged; so the value of a
  constructed name is never empty.
\<close>

theorem Name_nonempty:
  "(s = [] \<longrightarrow> Name s = Inl (ValueError ''The name cannot be empty.'')) \<and>
   (s \<noteq> [] \<longrightarrow> Name s = Inr s) \<and>
   (\<forall>v. Name s = Inr v \<longrightarrow> v \<noteq> [] \<and> v = s)"
  by (auto simp: Name_def)

theorem Name_nonempty_witness:
  "Name [] = Inl (ValueError ''The name cannot be empty.'') \<and>
   Name (ascii ''John'') = Inr (ascii ''John'') \<and> ascii ''John'' \<noteq> []"
proof -
  have "ascii ''John'' \<noteq> []"
    by (simp add: ascii_simps)
  then show ?thesis
    using Name_nonempty [of "[]"] Name_nonempty [of "ascii ''John''"] by blast
qed

section \<open>Properties of the phone list of a record\<close>

lemma list_remove_first:
  "x \<in> set xs \<Longrightarrow>
   \<exists>pre post. xs = pre @ x # post \<and> x \<notin> set pre \<and> list_remove x xs = Inr (pre @ post)"
proof (induction xs)
  case Nil
  then show ?case by simp
next
  case (Cons a xs)
  show ?case
  proof (cases "a = x")
    case True
    then have "a # xs = [] @ x # xs \<and> x \<notin> set [] \<and> list_remove x (a # xs) = Inr ([] @ xs)"
      by (simp add: list_remove_def)
    then show ?thesis by blast
  next
    case False
    with Cons obtain pre post where
      "xs = pre @ x # post" "x \<notin> set pre" "list_remove x xs = Inr (pre @ post)"
      by auto
    with False have "a # xs = (a # pre) @ x # post \<and> x \<notin> set (a # pre) \<and>
        list_remove x (a # xs) = Inr ((a # pre) @ post)"
      by (auto simp: list_remove_def)
    then show ?thesis by blast
  qed
qed

lemma remove_phone_loop_absent:
  "raw \<notin> set ps \<Longrightarrow> remove_phone_loop ps r raw = (Inr False, r)"
  by (induction ps) auto

lemma remove_phone_loop_present:
  "raw \<in> set ps \<Longrightarrow>
   remove_phone_loop ps r raw =
     (case list_remove raw (phones r) of
        Inl e \<Rightarrow> (Inl e, r)
      | Inr xs \<Rightarrow> (Inr True, r\<lparr>phones := xs\<rparr>))"
  by (induction ps) auto

lemma remove_phone_found:
  assumes h: "raw \<in> set (phones r)"
  shows "\<exists>pre post. phones r = pre @ raw # post \<and> raw \<notin> set pre \<and>
     remove_phone r raw = (Inr True, r\<lparr>phones := pre @ post\<rparr>)"
proof -
  from list_remove_first [OF h] obtain pre post where
    p1: "phones r = pre @ raw # post" and p2: "raw \<notin> set pre" and
    p3: "list_remove raw (phones r) = Inr (pre @ post)"
    by blast
  have "remove_phone r raw = remove_phone_loop (phones r) r raw"
    by (simp only: remove_phone_def)
  also have "\<dots> = (case list_remove raw (phones r) of
        Inl e \<Rightarrow> (Inl e, r)
      | Inr xs \<Rightarrow> (Inr True, r\<lparr>phones := xs\<rparr>))"
    using h by (rule remove_phone_loop_present)
  also have "\<dots> = (Inr True, r\<lparr>phones := pre @ post\<rparr>)"
    by (simp only: p3 sum.case)
  finally have "remove_phone r raw = (Inr True, r\<lparr>phones := pre @ post\<rparr>)" .
  with p1 p2 show ?thesis
    by blast
qed

lemma remove_phone_not_found:
  assumes "raw \<notin> set (phones r)"
  shows "remove_phone r raw = (Inr False, r)"
proof -
  from assms have "remove_phone_loop (phones r) r raw = (Inr False, r)"
    by (rule remove_phone_loop_absent)
  then show ?thesis
    by (simp only: remove_phone_def)
qed

text \<open>
  Claim C8. When some phone of the record has the value \<open>raw\<close>, \<^verbatim>\<open>remove_phone(raw)\<close> returns
  \<^verbatim>\<open>True\<close> and removes the first such phone only: the phones before it and after it, later
  duplicates included, stay in place and in order. When no phone has that value it returns
  \<^verbatim>\<open>False\<close> and the record is unchanged.
\<close>

theorem remove_phone_first:
  "(raw \<in> set (phones r) \<longrightarrow>
      (\<exists>pre post. phones r = pre @ raw # post \<and> raw \<notin> set pre \<and>
         remove_phone r raw = (Inr True, r\<lparr>phones := pre @ post\<rparr>))) \<and>
   (raw \<notin> set (phones r) \<longrightarrow> remove_phone r raw = (Inr False, r))"
  using remove_phone_found [of raw r] remove_phone_not_found [of raw r] by blast

lemma first_split_unique:
  assumes "x # xs = pre @ x # post" and "x \<notin> set pre"
  shows "pre = [] \<and> post = xs"
  using assms by (cases pre) auto

theorem remove_phone_first_witness:
  "remove_phone
     \<lparr>name = ascii ''John'',
      phones = [ascii ''1234567890'', ascii ''5555555555'', ascii ''1234567890''],
      birthday = None\<rparr> (ascii ''1234567890'') =
   (Inr True,
    \<lparr>name = ascii ''John'', phones = [ascii ''5555555555'', ascii ''1234567890''],
     birthday = None\<rparr>) \<and>
   remove_phone \<lparr>name = ascii ''John'', phones = [ascii ''5555555555''], birthday = None\<rparr>
     (ascii ''1234567890'') =
   (Inr False, \<lparr>name = ascii ''John'', phones = [ascii ''5555555555''], birthday = None\<rparr>)"
proof -
  let ?raw = "ascii ''1234567890''"
  let ?r = "\<lparr>name = ascii ''John'', phones = [?raw, ascii ''5555555555'', ?raw],
             birthday = None\<rparr>"
  let ?q = "\<lparr>name = ascii ''John'', phones = [ascii ''5555555555''], birthday = None\<rparr>"
  have "?raw \<in> set (phones ?r)"
    by simp
  with remove_phone_first [of ?raw ?r] obtain pre post where
    p: "phones ?r = pre @ ?raw # post" "?raw \<notin> set pre"
      "remove_phone ?r ?raw = (Inr True, ?r\<lparr>phones := pre @ post\<rparr>)"
    by blast
  from p(1) have "?raw # [ascii ''5555555555'', ?raw] = pre @ ?raw # post"
    by simp
  from first_split_unique [OF this p(2)] p(3)
  have a: "remove_phone ?r ?raw =
      (Inr True, \<lparr>name = ascii ''John'', phones = [ascii ''5555555555'', ?raw],
                  birthday = None\<rparr>)"
    by simp
  have "?raw \<notin> set (phones ?q)"
    by (simp add: ascii_def)
  with remove_phone_first [of ?raw ?q] have b: "remove_phone ?q ?raw = (Inr False, ?q)"
    by blast
  from a b show ?thesis
    by blast
qed

lemma edit_phone_loop_absent:
  "old \<notin> set (drop i (phones r)) \<Longrightarrow> edit_phone_loop i r old new = (Inr False, r)"
proof (induction i r old new rule: edit_phone_loop.induct)
  case (1 i r old new)
  show ?case
  proof (cases "i < length (phones r)")
    case False
    then show ?thesis by (simp add: edit_phone_loop.simps)
  next
    case True
    then have d: "drop i (phones r) = phones r ! i # drop (Suc i) (phones r)"
      by (simp add: Cons_nth_drop_Suc)
    with "1.prems" have ne: "phones r ! i \<noteq> old" and rest: "old \<notin> set (drop (Suc i) (phones r))"
      by auto
    from "1.IH" [OF True ne rest] True ne show ?thesis
      by (subst edit_phone_loop.simps) simp
  qed
qed

lemma edit_phone_loop_invalid:
  "Phone new = Inl e \<Longrightarrow> old \<in> set (drop i (phones r)) \<Longrightarrow>
   edit_phone_loop i r old new = (Inl e, r)"
proof (induction i r old new rule: edit_phone_loop.induct)
  case (1 i r old new)
  from "1.prems" have lt: "i < length (phones r)"
    by (cases "i < length (phones r)") auto
  then have d: "drop i (phones r) = phones r ! i # drop (Suc i) (phones r)"
    by (simp add: Cons_nth_drop_Suc)
  show ?case
  proof (cases "phones r ! i = old")
    case True
    with lt "1.prems"(1) show ?thesis
      by (subst edit_phone_loop.simps) simp
  next
    case False
    with "1.prems" d have rest: "old \<in> set (drop (Suc i) (phones r))"
      by auto
    from "1.IH" [OF lt False "1.prems"(1) rest] lt False show ?thesis
      by (subst edit_phone_loop.simps) simp
  qed
qed

lemma edit_phone_loop_valid:
  "Phone new = Inr p \<Longrightarrow> old \<in> set (drop i (phones r)) \<Longrightarrow>
   \<exists>mid post. drop i (phones r) = mid @ old # post \<and> old \<notin> set mid \<and>
     edit_phone_loop i r old new = (Inr True, r\<lparr>phones := take i (phones r) @ mid @ p # post\<rparr>)"
proof (induction i r old new rule: edit_phone_loop.induct)
  case (1 i r old new)
  from "1.prems" have lt: "i < length (phones r)"
    by (cases "i < length (phones r)") auto
  then have d: "drop i (phones r) = phones r ! i # drop (Suc i) (phones r)"
    by (simp add: Cons_nth_drop_Suc)
  show ?case
  proof (cases "phones r ! i = old")
    case True
    have upd: "(phones r)[i := p] = take i (phones r) @ [] @ p # drop (Suc i) (phones r)"
      using lt by (simp add: upd_conv_take_nth_drop)
    have "edit_phone_loop i r old new =
        (Inr True, r\<lparr>phones := take i (phones r) @ [] @ p # drop (Suc i) (phones r)\<rparr>)"
      using lt True upd "1.prems"(1)
      by (subst edit_phone_loop.simps) (simp add: list_setitem_def)
    moreover have "drop i (phones r) = [] @ old # drop (Suc i) (phones r) \<and> old \<notin> set []"
      using d True by simp
    ultimately show ?thesis by blast
  next
    case False
    with "1.prems" d have rest: "old \<in> set (drop (Suc i) (phones r))"
      by auto
    from "1.IH" [OF lt False "1.prems"(1) rest] obtain mid post where
      m: "drop (Suc i) (phones r) = mid @ old # post" "old \<notin> set mid"
        "edit_phone_loop (Suc i) r old new =
           (Inr True, r\<lparr>phones := take (Suc i) (phones r) @ mid @ p # post\<rparr>)"
      by blast
    have t: "take (Suc i) (phones r) = take i (phones r) @ [phones r ! i]"
      using lt by (simp add: take_Suc_conv_app_nth)
    have s: "edit_phone_loop i r old new = edit_phone_loop (Suc i) r old new"
      using lt False by (subst edit_phone_loop.simps) simp
    have "drop i (phones r) = (phones r ! i # mid) @ old # post"
      using d m(1) by simp
    moreover have "old \<notin> set (phones r ! i # mid)"
      using False m(2) by simp
    moreover have "edit_phone_loop i r old new =
        (Inr True, r\<lparr>phones := take i (phones r) @ (phones r ! i # mid) @ p # post\<rparr>)"
      using s m(3) t by simp
    ultimately show ?thesis by blast
  qed
qed

lemma edit_phone_found_invalid:
  "old \<in> set (phones r) \<Longrightarrow> Phone new = Inl e \<Longrightarrow> edit_phone r old new = (Inl e, r)"
  using edit_phone_loop_invalid [of new e old 0 r] by (simp add: edit_phone_def)

lemma edit_phone_found_valid:
  assumes "old \<in> set (phones r)" and "Phone new = Inr p"
  shows "\<exists>pre post. phones r = pre @ old # post \<and> old \<notin> set pre \<and>
     edit_phone r old new = (Inr True, r\<lparr>phones := pre @ p # post\<rparr>)"
  using edit_phone_loop_valid [of new p old 0 r] assms
  by (simp add: edit_phone_def)

lemma edit_phone_not_found:
  "old \<notin> set (phones r) \<Longrightarrow> edit_phone r old new = (Inr False, r)"
  using edit_phone_loop_absent [of old 0 r new] by (simp add: edit_phone_def)

text \<open>
  Claim C2 as stated fails: when \<open>old\<close> is not among the phones, an invalid \<open>new\<close> is never
  validated, so no error propagates and the call returns \<^verbatim>\<open>False\<close>.
\<close>

theorem edit_phone_invalid_new_counterexample:
  "Phone (ascii ''12345'') =
     Inl (ValueError ''The phone number must contain exactly 10 digits.'') \<and>
   edit_phone \<lparr>name = ascii ''John'', phones = [ascii ''5555555555''], birthday = None\<rparr>
     (ascii ''1234567890'') (ascii ''12345'') =
   (Inr False, \<lparr>name = ascii ''John'', phones = [ascii ''5555555555''], birthday = None\<rparr>)"
proof -
  have "ascii ''1234567890'' \<notin>
      set (phones \<lparr>name = ascii ''John'', phones = [ascii ''5555555555''], birthday = None\<rparr>)"
    by (simp add: ascii_def)
  then have "edit_phone \<lparr>name = ascii ''John'', phones = [ascii ''5555555555''], birthday = None\<rparr>
     (ascii ''1234567890'') (ascii ''12345'') =
   (Inr False, \<lparr>name = ascii ''John'', phones = [ascii ''5555555555''], birthday = None\<rparr>)"
    by (rule edit_phone_not_found)
  moreover have "Phone (ascii ''12345'') =
     Inl (ValueError ''The phone number must contain exactly 10 digits.'')"
    by (simp add: Phone_def ascii_def)
  ultimately show ?thesis
    by blast
qed

text \<open>
  Claim C2, amended. When \<open>old\<close> is found and \<open>new\<close> fails \<^verbatim>\<open>Phone\<close> validation, the error
  propagates and the record is unchanged. When \<open>old\<close> is not found, the call returns \<^verbatim>\<open>False\<close>
  without raising and the record is unchanged, whether \<open>new\<close> is valid or not. When \<open>old\<close> is
  found and \<open>new\<close> is valid, the first phone equal to \<open>old\<close> is replaced at its position and
  the call returns \<^verbatim>\<open>True\<close>. In every case an invalid \<open>new\<close> leaves the record unchanged.
\<close>

theorem edit_phone_atomic:
  "(old \<in> set (phones r) \<longrightarrow> (\<forall>e. Phone new = Inl e \<longrightarrow> edit_phone r old new = (Inl e, r))) \<and>
   (old \<notin> set (phones r) \<longrightarrow> edit_phone r old new = (Inr False, r)) \<and>
   (old \<in> set (phones r) \<longrightarrow>
      (\<forall>p. Phone new = Inr p \<longrightarrow>
         (\<exists>pre post. phones r = pre @ old # post \<and> old \<notin> set pre \<and>
            edit_phone r old new = (Inr True, r\<lparr>phones := pre @ p # post\<rparr>)))) \<and>
   (\<forall>e. Phone new = Inl e \<longrightarrow> snd (edit_phone r old new) = r)"
proof (intro conjI impI allI)
  fix e
  assume "old \<in> set (phones r)" "Phone new = Inl e"
  then show "edit_phone r old new = (Inl e, r)"
    by (rule edit_phone_found_invalid)
next
  assume "old \<notin> set (phones r)"
  then show "edit_phone r old new = (Inr False, r)"
    by (rule edit_phone_not_found)
next
  fix p
  assume "old \<in> set (phones r)" "Phone new = Inr p"
  then show "\<exists>pre post. phones r = pre @ old # post \<and> old \<notin> set pre \<and>
            edit_phone r old new = (Inr True, r\<lparr>phones := pre @ p # post\<rparr>)"
    by (rule edit_phone_found_valid)
next
  fix e
  assume e: "Phone new = Inl e"
  show "snd (edit_phone r old new) = r"
  proof (cases "old \<in> set (phones r)")
    case True
    with e show ?thesis
      by (simp add: edit_phone_found_invalid)
  next
    case False
    then show ?thesis
      by (simp add: edit_phone_not_found)
  qed
qed

theorem edit_phone_atomic_witness:
  "edit_phone
     \<lparr>name = ascii ''John'',
      phones = [ascii ''5555555555'', ascii ''1234567890'', ascii ''1234567890''],
      birthday = None\<rparr> (ascii ''1234567890'') (ascii ''1112223333'') =
   (Inr True,
    \<lparr>name = ascii ''John'',
     phones = [ascii ''5555555555'', ascii ''1112223333'', ascii ''1234567890''],
     birthday = None\<rparr>) \<and>
   edit_phone \<lparr>name = ascii ''John'', phones = [ascii ''1234567890''], birthday = None\<rparr>
     (ascii ''1234567890'') (ascii ''12345'') =
   (Inl (ValueError ''The phone number must contain exactly 10 digits.''),
    \<lparr>name = ascii ''John'', phones = [ascii ''1234567890''], birthday = None\<rparr>) \<and>
   edit_phone \<lparr>name = ascii ''John'', phones = [ascii ''1234567890''], birthday = None\<rparr>
     (ascii ''5555555555'') (ascii ''1112223333'') =
   (Inr False, \<lparr>name = ascii ''John'', phones = [ascii ''1234567890''], birthday = None\<rparr>)"
proof -
  let ?old = "ascii ''1234567890''"
  let ?new = "ascii ''1112223333''"
  let ?five = "ascii ''5555555555''"
  let ?r = "\<lparr>name = ascii ''John'', phones = [?five, ?old, ?old], birthday = None\<rparr>"
  let ?q = "\<lparr>name = ascii ''John'', phones = [?old], birthday = None\<rparr>"
  have ne: "?five \<noteq> ?old"
    by (simp add: ascii_def)
  have "?old \<in> set (phones ?r)"
    by simp
  with edit_phone_atomic [of ?old ?r ?new] Phone_1112223333 obtain pre post where
    p: "phones ?r = pre @ ?old # post" "?old \<notin> set pre"
      "edit_phone ?r ?old ?new = (Inr True, ?r\<lparr>phones := pre @ ?new # post\<rparr>)"
    by blast
  have "pre = [?five] \<and> post = [?old]"
  proof (cases pre)
    case Nil
    with p(1) ne show ?thesis by simp
  next
    case (Cons a pre')
    with p(1) have a: "a = ?five" and rest: "?old # [?old] = pre' @ ?old # post"
      by simp_all
    from Cons p(2) have "?old \<notin> set pre'"
      by simp
    from first_split_unique [OF rest this] Cons a show ?thesis
      by simp
  qed
  with p(3) have a: "edit_phone ?r ?old ?new =
      (Inr True, \<lparr>name = ascii ''John'', phones = [?five, ?new, ?old], birthday = None\<rparr>)"
    by simp
  have "?old \<in> set (phones ?q)"
    by simp
  moreover have "Phone (ascii ''12345'') =
     Inl (ValueError ''The phone number must contain exactly 10 digits.'')"
    by (simp add: Phone_def ascii_def)
  ultimately have b: "edit_phone ?q ?old (ascii ''12345'') =
      (Inl (ValueError ''The phone number must contain exactly 10 digits.''), ?q)"
    using edit_phone_atomic [of ?old ?q "ascii ''12345''"] by blast
  have "?five \<notin> set (phones ?q)"
    using ne by simp
  with edit_phone_atomic [of ?five ?q ?new] have c: "edit_phone ?q ?five ?new = (Inr False, ?q)"
    by blast
  from a b c show ?thesis
    by blast
qed

section \<open>Properties of the dictionary and of the address book\<close>

lemma dict_get_setitem:
  "dict_get (dict_setitem d k v) k' = (if k' = k then Some v else dict_get d k')"
  by (induction d) (auto simp: dict_get_def)

lemma dict_setitem_present:
  "dict_contains d k \<Longrightarrow> map fst (dict_setitem d k v) = map fst d"
  by (induction d) (auto simp: dict_contains_def)

lemma dict_setitem_absent:
  "\<not> dict_contains d k \<Longrightarrow> dict_setitem d k v = d @ [(k, v)]"
  by (induction d) (auto simp: dict_contains_def)

lemma dict_setitem_keys:
  "set (map fst (dict_setitem d k v)) = insert k (set (map fst d))"
  by (induction d) auto

lemma dict_setitem_distinct:
  "distinct (map fst d) \<Longrightarrow> distinct (map fst (dict_setitem d k v))"
proof (induction d)
  case Nil
  then show ?case by simp
next
  case (Cons p d)
  show ?case
  proof (cases "fst p = k")
    case True
    with Cons.prems show ?thesis by simp
  next
    case False
    from Cons have "distinct (map fst (dict_setitem d k v))" by simp
    moreover from Cons.prems False have "fst p \<notin> set (map fst (dict_setitem d k v))"
      by (simp only: dict_setitem_keys) simp
    ultimately show ?thesis
      using False by simp
  qed
qed

lemma dict_get_entry:
  "distinct (map fst d) \<Longrightarrow> (k, v) \<in> set d \<Longrightarrow> dict_get d k = Some v"
  by (simp add: dict_get_def)

lemma dict_get_Some: "dict_get d k = Some v \<Longrightarrow> (k, v) \<in> set d"
  by (simp add: dict_get_def map_of_SomeD)

lemma dict_get_None: "dict_get d k = None \<longleftrightarrow> \<not> dict_contains d k"
  by (simp add: dict_get_def dict_contains_def map_of_eq_None_iff)

lemma dict_get_filter:
  "dict_get (filter (\<lambda>p. fst p \<noteq> k) d) k' = (if k' = k then None else dict_get d k')"
  by (induction d) (auto simp: dict_get_def)

lemma dict_contains_filter: "\<not> dict_contains (filter (\<lambda>p. fst p \<noteq> k) d) k"
  by (auto simp: dict_contains_def)

text \<open>
  Claim C5. \<^verbatim>\<open>add_record\<close> cannot raise. Afterwards the entry under the record's name is the
  record added, whole: nothing of a prior record under that name remains. The other names
  keep their records. When the name was present the keys and their order are unchanged; when
  it was not, the record is appended under its name. Over a dictionary, whose keys are
  distinct, the keys stay distinct, and the added record is the only entry under its name.
\<close>

theorem add_record_overwrites:
  "find_record (add_record book record) (name record) = Some record \<and>
   (\<forall>n. n \<noteq> name record \<longrightarrow> find_record (add_record book record) n = find_record book n) \<and>
   (dict_contains book (name record) \<longrightarrow>
      map fst (add_record book record) = map fst book) \<and>
   (\<not> dict_contains book (name record) \<longrightarrow>
      add_record book record = book @ [(name record, record)]) \<and>
   (distinct (map fst book) \<longrightarrow>
      distinct (map fst (add_record book record)) \<and>
      (\<forall>v. (name record, v) \<in> set (add_record book record) \<longrightarrow> v = record))"
proof (intro conjI impI allI)
  show g: "find_record (add_record book record) (name record) = Some record"
    by (simp add: find_record_def add_record_def dict_get_setitem)
  show "find_record (add_record book record) n = find_record book n" if "n \<noteq> name record" for n
    using that by (simp add: find_record_def add_record_def dict_get_setitem)
  show "map fst (add_record book record) = map fst book" if "dict_contains book (name record)"
    using that by (simp add: add_record_def dict_setitem_present)
  show "add_record book record = book @ [(name record, record)]"
    if "\<not> dict_contains book (name record)"
    using that by (simp add: add_record_def dict_setitem_absent)
  show d: "distinct (map fst (add_record book record))" if "distinct (map fst book)"
    using that by (simp only: add_record_def dict_setitem_distinct)
  show "v = record"
    if "distinct (map fst book)" and "(name record, v) \<in> set (add_record book record)" for v
  proof -
    from d [OF that(1)] that(2) have "dict_get (add_record book record) (name record) = Some v"
      by (rule dict_get_entry)
    with g show ?thesis
      by (simp add: find_record_def)
  qed
qed

theorem add_record_overwrites_witness:
  "find_record
     (add_record
        [(ascii ''John'',
          \<lparr>name = ascii ''John'', phones = [ascii ''1234567890''],
           birthday = Some \<lparr>year = 1990, month = 4, day = 10, hour = 0, minute = 0,
                             second = 0, microsecond = 0\<rparr>\<rparr>)]
        \<lparr>name = ascii ''John'', phones = [], birthday = None\<rparr>)
     (ascii ''John'') =
   Some \<lparr>name = ascii ''John'', phones = [], birthday = None\<rparr> \<and>
   map fst
     (add_record
        [(ascii ''John'',
          \<lparr>name = ascii ''John'', phones = [ascii ''1234567890''],
           birthday = Some \<lparr>year = 1990, month = 4, day = 10, hour = 0, minute = 0,
                             second = 0, microsecond = 0\<rparr>\<rparr>)]
        \<lparr>name = ascii ''John'', phones = [], birthday = None\<rparr>) =
   [ascii ''John''] \<and>
   add_record
     [(ascii ''John'',
       \<lparr>name = ascii ''John'', phones = [ascii ''1234567890''],
        birthday = Some \<lparr>year = 1990, month = 4, day = 10, hour = 0, minute = 0,
                          second = 0, microsecond = 0\<rparr>\<rparr>)]
     \<lparr>name = ascii ''John'', phones = [], birthday = None\<rparr> =
   [(ascii ''John'', \<lparr>name = ascii ''John'', phones = [], birthday = None\<rparr>)] \<and>
   find_record (add_record [] \<lparr>name = ascii ''John'', phones = [], birthday = None\<rparr>)
     (ascii ''Jane'') = None \<and>
   add_record [] \<lparr>name = ascii ''John'', phones = [], birthday = None\<rparr> =
     [(ascii ''John'', \<lparr>name = ascii ''John'', phones = [], birthday = None\<rparr>)]"
proof -
  let ?old = "\<lparr>name = ascii ''John'', phones = [ascii ''1234567890''],
           birthday = Some \<lparr>year = 1990, month = 4, day = 10, hour = 0, minute = 0,
                             second = 0, microsecond = 0\<rparr>\<rparr>"
  let ?new = "\<lparr>name = ascii ''John'', phones = [], birthday = None\<rparr>"
  let ?book = "[(ascii ''John'', ?old)]"
  have n: "name ?new = ascii ''John''"
    by simp
  have c: "dict_contains ?book (name ?new)"
    by (simp add: dict_contains_def)
  have d: "distinct (map fst ?book)"
    by simp
  have e: "\<not> dict_contains [] (name ?new)"
    by (simp add: dict_contains_def)
  have j: "ascii ''Jane'' \<noteq> name ?new"
    by (simp add: ascii_def)
  have f: "find_record [] (ascii ''Jane'') = None"
    by (simp add: find_record_def dict_get_def)
  note t = add_record_overwrites [of ?book ?new, unfolded n]
  note u = add_record_overwrites [of "[]" ?new, unfolded n]
  from t have a: "find_record (add_record ?book ?new) (ascii ''John'') = Some ?new"
    by blast
  from t c [unfolded n] have "map fst (add_record ?book ?new) = map fst ?book"
    by blast
  then have b: "map fst (add_record ?book ?new) = [ascii ''John'']"
    by simp
  from t d have w: "\<forall>v. (ascii ''John'', v) \<in> set (add_record ?book ?new) \<longrightarrow> v = ?new"
    by blast
  from b obtain x where x: "add_record ?book ?new = [x]" and "fst x = ascii ''John''"
    by auto
  then have "(ascii ''John'', snd x) \<in> set (add_record ?book ?new)"
    by (cases x) simp
  with w have "snd x = ?new"
    by blast
  with x \<open>fst x = ascii ''John''\<close> have v: "add_record ?book ?new = [(ascii ''John'', ?new)]"
    by (cases x) simp
  from u j [unfolded n] have "find_record (add_record [] ?new) (ascii ''Jane'') =
      find_record [] (ascii ''Jane'')"
    by blast
  with f have g: "find_record (add_record [] ?new) (ascii ''Jane'') = None"
    by simp
  from u e [unfolded n] have "add_record [] ?new = [] @ [(ascii ''John'', ?new)]"
    by blast
  then have h: "add_record [] ?new = [(ascii ''John'', ?new)]"
    by simp
  from a b v g h show ?thesis
    by blast
qed

text \<open>
  Claim C7. Not finding something never raises. \<^verbatim>\<open>find\<close> returns the stored record when the
  name is present and \<^verbatim>\<open>None\<close> when it is not. \<^verbatim>\<open>delete\<close> always returns normally: the name
  is absent afterwards, the other names keep their records, and the book is unchanged when
  the name was absent. \<^verbatim>\<open>remove_phone\<close> never raises, and it and \<^verbatim>\<open>edit_phone\<close> return \<^verbatim>\<open>False\<close>
  and leave the record unchanged when the phone is missing.
\<close>

theorem not_found_never_raises:
  "(dict_contains book n \<longrightarrow> (\<exists>r. find_record book n = Some r \<and> (n, r) \<in> set book)) \<and>
   (\<not> dict_contains book n \<longrightarrow> find_record book n = None) \<and>
   (\<exists>book'. delete_record book n = Inr book' \<and> \<not> dict_contains book' n \<and>
      (\<forall>k. k \<noteq> n \<longrightarrow> find_record book' k = find_record book k) \<and>
      (\<not> dict_contains book n \<longrightarrow> book' = book)) \<and>
   (\<exists>b. fst (remove_phone r raw) = Inr b) \<and>
   (raw \<notin> set (phones r) \<longrightarrow> remove_phone r raw = (Inr False, r)) \<and>
   (old \<notin> set (phones r) \<longrightarrow> edit_phone r old new = (Inr False, r))"
proof (intro conjI impI)
  assume c: "dict_contains book n"
  then obtain r where "dict_get book n = Some r"
    using dict_get_None [of book n] by (cases "dict_get book n") auto
  then show "\<exists>r. find_record book n = Some r \<and> (n, r) \<in> set book"
    by (auto simp: find_record_def dest: dict_get_Some)
next
  assume "\<not> dict_contains book n"
  then show "find_record book n = None"
    by (simp add: find_record_def dict_get_None)
next
  show "\<exists>book'. delete_record book n = Inr book' \<and> \<not> dict_contains book' n \<and>
      (\<forall>k. k \<noteq> n \<longrightarrow> find_record book' k = find_record book k) \<and>
      (\<not> dict_contains book n \<longrightarrow> book' = book)"
  proof (cases "dict_contains book n")
    case True
    then have "delete_record book n = Inr (filter (\<lambda>p. fst p \<noteq> n) book)"
      by (simp add: delete_record_def dict_delitem_def)
    with True show ?thesis
      by (simp add: dict_contains_filter find_record_def dict_get_filter)
  next
    case False
    then have "delete_record book n = Inr book"
      by (simp add: delete_record_def)
    with False show ?thesis
      by simp
  qed
next
  show "\<exists>b. fst (remove_phone r raw) = Inr b"
  proof (cases "raw \<in> set (phones r)")
    case True
    from remove_phone_found [OF True] show ?thesis
      by auto
  next
    case False
    then have "fst (remove_phone r raw) = Inr False"
      by (simp add: remove_phone_not_found)
    then show ?thesis
      by blast
  qed
next
  assume "raw \<notin> set (phones r)"
  then show "remove_phone r raw = (Inr False, r)"
    by (rule remove_phone_not_found)
next
  assume "old \<notin> set (phones r)"
  then show "edit_phone r old new = (Inr False, r)"
    by (rule edit_phone_not_found)
qed

theorem not_found_never_raises_witness:
  "find_record [(ascii ''John'', \<lparr>name = ascii ''John'', phones = [], birthday = None\<rparr>)]
     (ascii ''John'') = Some \<lparr>name = ascii ''John'', phones = [], birthday = None\<rparr> \<and>
   find_record [(ascii ''John'', \<lparr>name = ascii ''John'', phones = [], birthday = None\<rparr>)]
     (ascii ''Jane'') = None \<and>
   delete_record [(ascii ''John'', \<lparr>name = ascii ''John'', phones = [], birthday = None\<rparr>)]
     (ascii ''Jane'') =
     Inr [(ascii ''John'', \<lparr>name = ascii ''John'', phones = [], birthday = None\<rparr>)] \<and>
   (\<exists>book'. delete_record
        [(ascii ''John'', \<lparr>name = ascii ''John'', phones = [], birthday = None\<rparr>)]
        (ascii ''John'') = Inr book' \<and> \<not> dict_contains book' (ascii ''John'')) \<and>
   remove_phone \<lparr>name = ascii ''John'', phones = [], birthday = None\<rparr> (ascii ''1234567890'') =
     (Inr False, \<lparr>name = ascii ''John'', phones = [], birthday = None\<rparr>) \<and>
   edit_phone \<lparr>name = ascii ''John'', phones = [], birthday = None\<rparr> (ascii ''1234567890'')
     (ascii ''1112223333'') =
     (Inr False, \<lparr>name = ascii ''John'', phones = [], birthday = None\<rparr>)"
proof -
  let ?r = "\<lparr>name = ascii ''John'', phones = [], birthday = None\<rparr>"
  let ?book = "[(ascii ''John'', ?r)]"
  let ?raw = "ascii ''1234567890''"
  let ?new = "ascii ''1112223333''"
  have c: "dict_contains ?book (ascii ''John'')"
    by (simp add: dict_contains_def)
  have e: "\<not> dict_contains ?book (ascii ''Jane'')"
    by (simp add: dict_contains_def ascii_def)
  have p: "?raw \<notin> set (phones ?r)"
    by simp
  note t = not_found_never_raises [of ?book "ascii ''John''" ?r ?raw ?raw ?new]
  note u = not_found_never_raises [of ?book "ascii ''Jane''" ?r ?raw ?raw ?new]
  from t c obtain r' where "find_record ?book (ascii ''John'') = Some r'"
    and "(ascii ''John'', r') \<in> set ?book"
    by blast
  then have a: "find_record ?book (ascii ''John'') = Some ?r"
    by simp
  from t have b: "\<exists>book'. delete_record ?book (ascii ''John'') = Inr book' \<and>
        \<not> dict_contains book' (ascii ''John'')"
    by blast
  from t p have f: "remove_phone ?r ?raw = (Inr False, ?r)"
    by blast
  from t p have g: "edit_phone ?r ?raw ?new = (Inr False, ?r)"
    by blast
  from u e have h: "find_record ?book (ascii ''Jane'') = None"
    by blast
  from u e obtain book' where "delete_record ?book (ascii ''Jane'') = Inr book'"
    and "book' = ?book"
    by blast
  then have i: "delete_record ?book (ascii ''Jane'') = Inr ?book"
    by simp
  from a b f g h i show ?thesis
    by blast
qed

section \<open>The invariant of the phone list\<close>

lemma add_phone_phones:
  "p \<in> set (phones (snd (add_phone r phone))) \<Longrightarrow> p \<in> set (phones r) \<or> Phone phone = Inr p"
  by (cases "Phone phone") (auto simp: add_phone_def)

lemma remove_phone_phones:
  assumes "p \<in> set (phones (snd (remove_phone r raw)))"
  shows "p \<in> set (phones r)"
proof (cases "raw \<in> set (phones r)")
  case True
  from remove_phone_found [OF True] obtain pre post where
    "phones r = pre @ raw # post" "remove_phone r raw = (Inr True, r\<lparr>phones := pre @ post\<rparr>)"
    by blast
  with assms show ?thesis
    by auto
next
  case False
  with assms show ?thesis
    by (simp add: remove_phone_not_found)
qed

lemma edit_phone_phones:
  assumes "p \<in> set (phones (snd (edit_phone r old new)))"
  shows "p \<in> set (phones r) \<or> Phone new = Inr p"
proof (cases "old \<in> set (phones r)")
  case False
  with assms show ?thesis
    by (simp add: edit_phone_not_found)
next
  case True
  show ?thesis
  proof (cases "Phone new")
    case (Inl e)
    with True assms show ?thesis
      by (simp add: edit_phone_found_invalid)
  next
    case (Inr q)
    from edit_phone_found_valid [OF True Inr] obtain pre post where
      "phones r = pre @ old # post"
      "edit_phone r old new = (Inr True, r\<lparr>phones := pre @ q # post\<rparr>)"
      by blast
    with assms Inr show ?thesis
      by auto
  qed
qed

lemma add_birthday_phones: "phones (snd (add_birthday r b)) = phones r"
  by (cases "Birthday b") (simp_all add: add_birthday_def)

lemma after_call_phones:
  assumes "p \<in> set (phones (after_call r c))"
  shows "p \<in> set (phones r) \<or> Phone p = Inr p"
proof (cases c)
  case (Add_phone x)
  with assms add_phone_phones [of p r x] show ?thesis
    by (auto simp: Phone_Inr_iff)
next
  case (Remove_phone x)
  with assms remove_phone_phones [of p r x] show ?thesis
    by simp
next
  case (Edit_phone x y)
  with assms edit_phone_phones [of p r x y] show ?thesis
    by (auto simp: Phone_Inr_iff)
next
  case (Add_birthday x)
  with assms show ?thesis
    by (simp add: add_birthday_phones)
qed

lemma after_calls_phones:
  "p \<in> set (phones (after_calls r cs)) \<Longrightarrow> p \<in> set (phones r) \<or> Phone p = Inr p"
proof (induction cs arbitrary: r)
  case Nil
  then show ?case
    by (simp add: after_calls_def)
next
  case (Cons c cs)
  from Cons.prems have "p \<in> set (phones (after_calls (after_call r c) cs))"
    by (simp add: after_calls_def)
  from Cons.IH [OF this] after_call_phones [of p r c] show ?case
    by blast
qed

lemma Record_init_phones: "Record_init nm = Inr r \<Longrightarrow> phones r = []"
  by (cases "Name nm") (auto simp: Record_init_def)

text \<open>
  Claim C9. Start from a record as \<^verbatim>\<open>Record(name)\<close> constructs it and call \<^verbatim>\<open>add_phone\<close>,
  \<^verbatim>\<open>remove_phone\<close>, \<^verbatim>\<open>edit_phone\<close> and \<^verbatim>\<open>add_birthday\<close> in any sequence, with any arguments,
  whether the calls return or raise. Every element of the phone list is then a value that
  \<^verbatim>\<open>Phone\<close> accepts: a string of exactly ten digits.
\<close>

theorem phones_always_validated:
  "Record_init nm = Inr r0 \<Longrightarrow>
   \<forall>p\<in>set (phones (after_calls r0 cs)).
     Phone p = Inr p \<and> length p = 10 \<and> (\<forall>c\<in>set p. is_digit c)"
proof
  fix p
  assume i: "Record_init nm = Inr r0" and p: "p \<in> set (phones (after_calls r0 cs))"
  from after_calls_phones [OF p] Record_init_phones [OF i] have "Phone p = Inr p"
    by simp
  then show "Phone p = Inr p \<and> length p = 10 \<and> (\<forall>c\<in>set p. is_digit c)"
    by (simp add: Phone_Inr_iff isdigit_iff)
qed

lemma Phone_1234567890: "Phone (ascii ''1234567890'') = Inr (ascii ''1234567890'')"
  by (simp add: Phone_def isdigit_def ascii_def is_digit_ascii is_ascii_digit_def)

lemma after_calls_example:
  "phones (after_calls \<lparr>name = ascii ''John'', phones = [], birthday = None\<rparr>
     [Add_phone (ascii ''1234567890''), Add_phone (ascii ''12345''),
      Edit_phone (ascii ''1234567890'') (ascii ''1112223333''),
      Remove_phone (ascii ''0000000000'')]) =
   [ascii ''1112223333'']"
proof -
  let ?r0 = "\<lparr>name = ascii ''John'', phones = [], birthday = None\<rparr>"
  let ?r1 = "\<lparr>name = ascii ''John'', phones = [ascii ''1234567890''], birthday = None\<rparr>"
  let ?r2 = "\<lparr>name = ascii ''John'', phones = [ascii ''1112223333''], birthday = None\<rparr>"
  have a: "after_call ?r0 (Add_phone (ascii ''1234567890'')) = ?r1"
    by (simp add: add_phone_def Phone_1234567890)
  have b: "after_call ?r1 (Add_phone (ascii ''12345'')) = ?r1"
    by (simp add: add_phone_def Phone_12345)
  have "edit_phone_loop 0 ?r1 (ascii ''1234567890'') (ascii ''1112223333'') = (Inr True, ?r2)"
    by (subst edit_phone_loop.simps) (simp add: Phone_1112223333 list_setitem_def)
  then have c: "after_call ?r1 (Edit_phone (ascii ''1234567890'') (ascii ''1112223333'')) = ?r2"
    by (simp add: edit_phone_def)
  have "ascii ''0000000000'' \<notin> set (phones ?r2)"
    by (simp add: ascii_def)
  then have d: "after_call ?r2 (Remove_phone (ascii ''0000000000'')) = ?r2"
    by (simp add: remove_phone_not_found)
  show ?thesis
    by (simp only: after_calls_def foldl.simps a b c d) simp
qed

theorem phones_always_validated_witness:
  "Record_init (ascii ''John'') = Inr \<lparr>name = ascii ''John'', phones = [], birthday = None\<rparr> \<and>
   phones (after_calls \<lparr>name = ascii ''John'', phones = [], birthday = None\<rparr>
     [Add_phone (ascii ''1234567890''), Add_phone (ascii ''12345''),
      Edit_phone (ascii ''1234567890'') (ascii ''1112223333''),
      Remove_phone (ascii ''0000000000'')]) =
   [ascii ''1112223333''] \<and>
   Phone (ascii ''1112223333'') = Inr (ascii ''1112223333'') \<and>
   length (ascii ''1112223333'') = 10 \<and> isdigit (ascii ''1112223333'')"
proof -
  let ?r0 = "\<lparr>name = ascii ''John'', phones = [], birthday = None\<rparr>"
  let ?cs = "[Add_phone (ascii ''1234567890''), Add_phone (ascii ''12345''),
      Edit_phone (ascii ''1234567890'') (ascii ''1112223333''),
      Remove_phone (ascii ''0000000000'')]"
  have i: "Record_init (ascii ''John'') = Inr ?r0"
    by (simp add: Record_init_def Name_def ascii_def)
  have "ascii ''1112223333'' \<in> set (phones (after_calls ?r0 ?cs))"
    by (simp only: after_calls_example) simp
  with phones_always_validated [OF i, of ?cs]
  have "Phone (ascii ''1112223333'') = Inr (ascii ''1112223333'') \<and>
   length (ascii ''1112223333'') = 10 \<and> (\<forall>c\<in>set (ascii ''1112223333''). is_digit c)"
    by blast
  then have "Phone (ascii ''1112223333'') = Inr (ascii ''1112223333'') \<and>
   length (ascii ''1112223333'') = 10 \<and> isdigit (ascii ''1112223333'')"
    by (simp add: Phone_Inr_iff)
  with i after_calls_example show ?thesis
    by blast
qed

section \<open>Upcoming birthdays\<close>

lemma upcoming_loop_filter:
  "upcoming_loop today next_week rs acc =
     acc @ filter (\<lambda>r. case birthday r of
                         None \<Rightarrow> False
                       | Some b \<Rightarrow> datetime_le today b \<and> datetime_le b next_week) rs"
  by (induction rs arbitrary: acc) (simp_all split: option.splits)

lemma field_tuple_next_day: "field_tuple d < field_tuple (next_day d)"
  by (simp add: field_tuple_def next_day_def)

lemma field_tuple_add_days: "field_tuple d \<le> field_tuple (add_days n d)"
proof (induction n)
  case 0
  show ?case by simp
next
  case (Suc n)
  have "field_tuple (add_days n d) < field_tuple (add_days (Suc n) d)"
    by (simp only: add_days.simps field_tuple_next_day)
  with Suc show ?case
    by (rule order.trans [OF _ less_imp_le])
qed

lemma field_tuple_add_days_Suc: "field_tuple (add_days n d) < field_tuple (add_days (Suc n) d)"
  by (simp only: add_days.simps field_tuple_next_day)

lemma datetime_add_days_Inr: "datetime_add_days d n = Inr r \<Longrightarrow> r = add_days n d"
  by (simp add: datetime_add_days_def Let_def split: if_splits)

lemma datetime_le_add_days:
  assumes "datetime_add_days d n = Inr r"
  shows "datetime_le d r"
proof -
  from assms have "r = add_days n d"
    by (rule datetime_add_days_Inr)
  with field_tuple_add_days [of d n] show ?thesis
    by (simp only: datetime_le_def)
qed

lemma datetime_le_refl: "datetime_le d d"
  by (simp only: datetime_le_def order_refl)

lemma not_datetime_le_add_days_Suc:
  assumes "datetime_add_days d (Suc n) = Inr later" and "datetime_add_days d n = Inr r"
  shows "\<not> datetime_le later r"
proof -
  from assms have "later = add_days (Suc n) d" "r = add_days n d"
    by (simp_all only: datetime_add_days_Inr)
  with field_tuple_add_days_Suc [of n d] show ?thesis
    by (simp only: datetime_le_def not_le)
qed

lemma not_datetime_le_year: "year b < year a \<Longrightarrow> \<not> datetime_le a b"
  by (simp add: datetime_le_def field_tuple_def)

text \<open>
  Claim C1. Let \<open>now\<close> be the instant of the call and let \<open>now + 7 days\<close> exist (it does
  unless \<open>now\<close> lies in the last seven days of year 9999, where the addition raises
  \<^verbatim>\<open>OverflowError\<close>). Then \<^verbatim>\<open>get_upcoming_birthdays\<close> returns exactly the records of the book
  that have a birthday whose stored datetime \<open>b\<close> satisfies \<open>now \<le> b \<le> now + 7 days\<close>, in the
  order in which the book iterates. A birthday exactly at \<open>now + 7 days\<close> is included, one at
  \<open>now + 8 days\<close> is excluded, and the year is compared as it stands: a birthday in a year
  before that of \<open>now\<close>, or after that of \<open>now + 7 days\<close>, is never returned.
\<close>

theorem upcoming_birthdays_window:
  assumes "datetime_add_days now 7 = Inr next_week"
  shows "\<exists>res. get_upcoming_birthdays now book = Inr res \<and>
     res = filter (\<lambda>r. case birthday r of
                          None \<Rightarrow> False
                        | Some b \<Rightarrow> datetime_le now b \<and> datetime_le b next_week)
             (dict_values book) \<and>
     (\<forall>r\<in>set (dict_values book). birthday r = Some next_week \<longrightarrow> r \<in> set res) \<and>
     (\<forall>r later. datetime_add_days now 8 = Inr later \<and> birthday r = Some later \<longrightarrow>
        r \<notin> set res) \<and>
     (\<forall>r b. birthday r = Some b \<and> (year b < year now \<or> year next_week < year b) \<longrightarrow>
        r \<notin> set res)"
proof -
  let ?P = "\<lambda>r. case birthday r of
                   None \<Rightarrow> False
                 | Some b \<Rightarrow> datetime_le now b \<and> datetime_le b next_week"
  let ?res = "filter ?P (dict_values book)"
  have g: "get_upcoming_birthdays now book = Inr ?res"
    using assms by (simp add: get_upcoming_birthdays_def upcoming_loop_filter)
  have a: "r \<in> set ?res" if "r \<in> set (dict_values book)" "birthday r = Some next_week" for r
    using that datetime_le_add_days [OF assms] by (simp add: datetime_le_refl)
  have b: "r \<notin> set ?res" if "datetime_add_days now 8 = Inr later" "birthday r = Some later"
    for r later
  proof -
    have "datetime_add_days now (Suc 7) = Inr later"
      using that(1) by simp
    from not_datetime_le_add_days_Suc [OF this assms] that(2) show ?thesis
      by simp
  qed
  have c: "r \<notin> set ?res"
    if "birthday r = Some b" "year b < year now \<or> year next_week < year b" for r b
    using that not_datetime_le_year [of b now] not_datetime_le_year [of next_week b]
    by auto
  from g a b c show ?thesis
    by blast
qed

lemma add_days_7:
  "add_days 7 d = next_day (next_day (next_day (next_day (next_day (next_day (next_day d))))))"
  by (simp add: eval_nat_numeral)

lemma add_days_8: "add_days 8 d = next_day (add_days 7 d)"
  by (simp add: eval_nat_numeral)

lemma add_days_example_7:
  "datetime_add_days
     \<lparr>year = 2025, month = 4, day = 3, hour = 0, minute = 0, second = 0, microsecond = 0\<rparr> 7 =
   Inr \<lparr>year = 2025, month = 4, day = 10, hour = 0, minute = 0, second = 0, microsecond = 0\<rparr>"
  by (simp add: datetime_add_days_def add_days_8 add_days_7 next_day_def days_in_month_def
      DAYS_IN_MONTH_def is_leap_def MAXYEAR_def)

lemma add_days_example_8:
  "datetime_add_days
     \<lparr>year = 2025, month = 4, day = 3, hour = 0, minute = 0, second = 0, microsecond = 0\<rparr> 8 =
   Inr \<lparr>year = 2025, month = 4, day = 11, hour = 0, minute = 0, second = 0, microsecond = 0\<rparr>"
  by (simp add: datetime_add_days_def add_days_8 add_days_7 next_day_def days_in_month_def
      DAYS_IN_MONTH_def is_leap_def MAXYEAR_def)

theorem upcoming_birthdays_window_witness:
  "datetime_add_days
     \<lparr>year = 2025, month = 4, day = 3, hour = 0, minute = 0, second = 0, microsecond = 0\<rparr> 7 =
   Inr \<lparr>year = 2025, month = 4, day = 10, hour = 0, minute = 0, second = 0, microsecond = 0\<rparr> \<and>
   datetime_add_days
     \<lparr>year = 2025, month = 4, day = 3, hour = 0, minute = 0, second = 0, microsecond = 0\<rparr> 8 =
   Inr \<lparr>year = 2025, month = 4, day = 11, hour = 0, minute = 0, second = 0, microsecond = 0\<rparr> \<and>
   get_upcoming_birthdays
     \<lparr>year = 2025, month = 4, day = 3, hour = 0, minute = 0, second = 0, microsecond = 0\<rparr>
     [(ascii ''Ann'', \<lparr>name = ascii ''Ann'', phones = [], birthday = None\<rparr>),
      (ascii ''John'',
       \<lparr>name = ascii ''John'', phones = [],
        birthday = Some \<lparr>year = 2025, month = 4, day = 10, hour = 0, minute = 0, second = 0,
                          microsecond = 0\<rparr>\<rparr>),
      (ascii ''Jane'',
       \<lparr>name = ascii ''Jane'', phones = [],
        birthday = Some \<lparr>year = 2025, month = 4, day = 11, hour = 0, minute = 0, second = 0,
                          microsecond = 0\<rparr>\<rparr>),
      (ascii ''Bob'',
       \<lparr>name = ascii ''Bob'', phones = [],
        birthday = Some \<lparr>year = 1990, month = 4, day = 5, hour = 0, minute = 0, second = 0,
                          microsecond = 0\<rparr>\<rparr>),
      (ascii ''Eve'',
       \<lparr>name = ascii ''Eve'', phones = [],
        birthday = Some \<lparr>year = 2025, month = 4, day = 3, hour = 0, minute = 0, second = 0,
                          microsecond = 0\<rparr>\<rparr>)] =
   Inr [\<lparr>name = ascii ''John'', phones = [],
         birthday = Some \<lparr>year = 2025, month = 4, day = 10, hour = 0, minute = 0, second = 0,
                           microsecond = 0\<rparr>\<rparr>,
        \<lparr>name = ascii ''Eve'', phones = [],
         birthday = Some \<lparr>year = 2025, month = 4, day = 3, hour = 0, minute = 0, second = 0,
                           microsecond = 0\<rparr>\<rparr>]"
proof -
  let ?now = "\<lparr>year = 2025, month = 4, day = 3, hour = 0, minute = 0, second = 0,
               microsecond = 0\<rparr>"
  let ?nw = "\<lparr>year = 2025, month = 4, day = 10, hour = 0, minute = 0, second = 0,
              microsecond = 0\<rparr>"
  let ?book = "[(ascii ''Ann'', \<lparr>name = ascii ''Ann'', phones = [], birthday = None\<rparr>),
      (ascii ''John'',
       \<lparr>name = ascii ''John'', phones = [],
        birthday = Some \<lparr>year = 2025, month = 4, day = 10, hour = 0, minute = 0, second = 0,
                          microsecond = 0\<rparr>\<rparr>),
      (ascii ''Jane'',
       \<lparr>name = ascii ''Jane'', phones = [],
        birthday = Some \<lparr>year = 2025, month = 4, day = 11, hour = 0, minute = 0, second = 0,
                          microsecond = 0\<rparr>\<rparr>),
      (ascii ''Bob'',
       \<lparr>name = ascii ''Bob'', phones = [],
        birthday = Some \<lparr>year = 1990, month = 4, day = 5, hour = 0, minute = 0, second = 0,
                          microsecond = 0\<rparr>\<rparr>),
      (ascii ''Eve'',
       \<lparr>name = ascii ''Eve'', phones = [],
        birthday = Some \<lparr>year = 2025, month = 4, day = 3, hour = 0, minute = 0, second = 0,
                          microsecond = 0\<rparr>\<rparr>)]"
  from upcoming_birthdays_window [OF add_days_example_7, of ?book] obtain res where
    g: "get_upcoming_birthdays ?now ?book = Inr res" and
    r: "res = filter (\<lambda>r. case birthday r of
                          None \<Rightarrow> False
                        | Some b \<Rightarrow> datetime_le ?now b \<and> datetime_le b ?nw)
             (dict_values ?book)"
    by blast
  from r have "res =
     [\<lparr>name = ascii ''John'', phones = [],
         birthday = Some \<lparr>year = 2025, month = 4, day = 10, hour = 0, minute = 0, second = 0,
                           microsecond = 0\<rparr>\<rparr>,
        \<lparr>name = ascii ''Eve'', phones = [],
         birthday = Some \<lparr>year = 2025, month = 4, day = 3, hour = 0, minute = 0, second = 0,
                           microsecond = 0\<rparr>\<rparr>]"
    by (simp add: dict_values_def datetime_le_def field_tuple_def)
  with g add_days_example_7 add_days_example_8 show ?thesis
    by blast
qed

lemma datetime_new_midnight:
  "datetime_new y m d = Inr b \<Longrightarrow>
   year b = y \<and> month b = m \<and> day b = d \<and>
   hour b = 0 \<and> minute b = 0 \<and> second b = 0 \<and> microsecond b = 0"
  by (auto simp: datetime_new_def split: if_splits)

lemma strptime_midnight:
  assumes "strptime s = Inr b"
  shows "hour b = 0 \<and> minute b = 0 \<and> second b = 0 \<and> microsecond b = 0"
proof -
  from assms obtain y m d where "datetime_new y m d = Inr b"
    by (auto simp: strptime_def split: list.splits prod.splits if_splits sum.splits)
  then show ?thesis
    by (simp add: datetime_new_midnight)
qed

lemma Birthday_Inr: "Birthday s = Inr b \<Longrightarrow> strptime s = Inr b"
  by (auto simp: Birthday_def split: sum.splits error.splits)

lemma Birthday_midnight:
  "Birthday s = Inr b \<Longrightarrow> hour b = 0 \<and> minute b = 0 \<and> second b = 0 \<and> microsecond b = 0"
  by (rule strptime_midnight [OF Birthday_Inr])

lemma same_day_after_midnight:
  assumes "year b = year now" "month b = month now" "day b = day now"
    and "hour b = 0 \<and> minute b = 0 \<and> second b = 0 \<and> microsecond b = 0"
    and "(hour now, minute now, second now, microsecond now) \<noteq> (0, 0, 0, 0)"
  shows "\<not> datetime_le now b"
  using assms by (auto simp: datetime_le_def field_tuple_def)

lemma get_upcoming_birthdays_members:
  assumes "get_upcoming_birthdays now book = Inr res" and "r \<in> set res"
  shows "\<exists>b. birthday r = Some b \<and> datetime_le now b"
proof -
  from assms(1) obtain nw where "datetime_add_days now 7 = Inr nw"
    and "res = upcoming_loop now nw (dict_values book) []"
    by (auto simp: get_upcoming_birthdays_def split: sum.splits)
  with assms(2) show ?thesis
    by (auto simp: upcoming_loop_filter split: option.splits)
qed

text \<open>
  Claim C10. A constructed birthday is a datetime at midnight. So when the time of day of
  \<open>now\<close> is after midnight, a record whose birthday is the calendar date of \<open>now\<close> is in no
  list that \<^verbatim>\<open>get_upcoming_birthdays\<close> returns; and the call does return a list whenever
  \<open>now + 7 days\<close> exists.
\<close>

theorem same_day_birthday_excluded:
  "(Birthday s = Inr b \<longrightarrow>
      hour b = 0 \<and> minute b = 0 \<and> second b = 0 \<and> microsecond b = 0) \<and>
   (Birthday s = Inr b \<and> year b = year now \<and> month b = month now \<and> day b = day now \<and>
    (hour now, minute now, second now, microsecond now) \<noteq> (0, 0, 0, 0) \<and>
    birthday r = Some b \<longrightarrow>
      (\<forall>res. get_upcoming_birthdays now book = Inr res \<longrightarrow> r \<notin> set res) \<and>
      (\<forall>next_week. datetime_add_days now 7 = Inr next_week \<longrightarrow>
         (\<exists>res. get_upcoming_birthdays now book = Inr res \<and> r \<notin> set res)))"
proof (rule conjI)
  show "Birthday s = Inr b \<longrightarrow>
      hour b = 0 \<and> minute b = 0 \<and> second b = 0 \<and> microsecond b = 0"
    using Birthday_midnight [of s b] by blast
next
  show "Birthday s = Inr b \<and> year b = year now \<and> month b = month now \<and> day b = day now \<and>
    (hour now, minute now, second now, microsecond now) \<noteq> (0, 0, 0, 0) \<and>
    birthday r = Some b \<longrightarrow>
      (\<forall>res. get_upcoming_birthdays now book = Inr res \<longrightarrow> r \<notin> set res) \<and>
      (\<forall>next_week. datetime_add_days now 7 = Inr next_week \<longrightarrow>
         (\<exists>res. get_upcoming_birthdays now book = Inr res \<and> r \<notin> set res))"
  proof (intro impI conjI)
    assume h: "Birthday s = Inr b \<and> year b = year now \<and> month b = month now \<and>
      day b = day now \<and> (hour now, minute now, second now, microsecond now) \<noteq> (0, 0, 0, 0) \<and>
      birthday r = Some b"
    then have m: "hour b = 0 \<and> minute b = 0 \<and> second b = 0 \<and> microsecond b = 0"
      using Birthday_midnight [of s b] by blast
    from h m have n: "\<not> datetime_le now b"
      by (intro same_day_after_midnight) simp_all
    show x: "\<forall>res. get_upcoming_birthdays now book = Inr res \<longrightarrow> r \<notin> set res"
    proof (intro allI impI notI)
      fix res
      assume "get_upcoming_birthdays now book = Inr res" "r \<in> set res"
      from get_upcoming_birthdays_members [OF this] h n show False
        by auto
    qed
    show "\<forall>next_week. datetime_add_days now 7 = Inr next_week \<longrightarrow>
           (\<exists>res. get_upcoming_birthdays now book = Inr res \<and> r \<notin> set res)"
    proof (intro allI impI)
      fix next_week
      assume "datetime_add_days now 7 = Inr next_week"
      then obtain res where "get_upcoming_birthdays now book = Inr res"
        by (auto simp: get_upcoming_birthdays_def)
      with x show "\<exists>res. get_upcoming_birthdays now book = Inr res \<and> r \<notin> set res"
        by blast
    qed
  qed
qed

lemmas char_class_defs = is_decimal_def is_space_def in_ranges_def in_range_def
  decimal_ranges_def whitespace_ranges_def

lemmas strptime_defs = strptime_def format_matches_def named_group_def re_d_def re_m_def
  re_Y_def py_int_def strip_def digit_value_def datetime_new_def days_in_month_def
  DAYS_IN_MONTH_def is_leap_def MINYEAR_def MAXYEAR_def

lemma Birthday_03_04_2025: "Birthday (ascii ''03.04.2025'') =
   Inr \<lparr>year = 2025, month = 4, day = 3, hour = 0, minute = 0, second = 0, microsecond = 0\<rparr>"
  by (simp add: Birthday_def ascii_def strptime_defs char_class_defs)

lemma add_days_example_half_past_ten:
  "datetime_add_days
     \<lparr>year = 2025, month = 4, day = 3, hour = 10, minute = 30, second = 0, microsecond = 0\<rparr> 7 =
   Inr \<lparr>year = 2025, month = 4, day = 10, hour = 10, minute = 30, second = 0, microsecond = 0\<rparr>"
  by (simp add: datetime_add_days_def add_days_7 next_day_def days_in_month_def
      DAYS_IN_MONTH_def is_leap_def MAXYEAR_def)

theorem same_day_birthday_excluded_witness:
  "Birthday (ascii ''03.04.2025'') =
     Inr \<lparr>year = 2025, month = 4, day = 3, hour = 0, minute = 0, second = 0, microsecond = 0\<rparr> \<and>
   (\<exists>res. get_upcoming_birthdays
        \<lparr>year = 2025, month = 4, day = 3, hour = 10, minute = 30, second = 0, microsecond = 0\<rparr>
        [(ascii ''John'',
          \<lparr>name = ascii ''John'', phones = [],
           birthday = Some \<lparr>year = 2025, month = 4, day = 3, hour = 0, minute = 0,
                             second = 0, microsecond = 0\<rparr>\<rparr>)] = Inr res \<and>
      \<lparr>name = ascii ''John'', phones = [],
       birthday = Some \<lparr>year = 2025, month = 4, day = 3, hour = 0, minute = 0,
                         second = 0, microsecond = 0\<rparr>\<rparr> \<notin> set res) \<and>
   get_upcoming_birthdays
     \<lparr>year = 2025, month = 4, day = 3, hour = 10, minute = 30, second = 0, microsecond = 0\<rparr>
     [(ascii ''John'',
       \<lparr>name = ascii ''John'', phones = [],
        birthday = Some \<lparr>year = 2025, month = 4, day = 3, hour = 0, minute = 0,
                          second = 0, microsecond = 0\<rparr>\<rparr>)] = Inr []"
proof -
  let ?b = "\<lparr>year = 2025, month = 4, day = 3, hour = 0, minute = 0, second = 0,
             microsecond = 0\<rparr>"
  let ?now = "\<lparr>year = 2025, month = 4, day = 3, hour = 10, minute = 30, second = 0,
               microsecond = 0\<rparr>"
  let ?r = "\<lparr>name = ascii ''John'', phones = [], birthday = Some ?b\<rparr>"
  let ?book = "[(ascii ''John'', ?r)]"
  have h: "Birthday (ascii ''03.04.2025'') = Inr ?b \<and> year ?b = year ?now \<and>
      month ?b = month ?now \<and> day ?b = day ?now \<and>
      (hour ?now, minute ?now, second ?now, microsecond ?now) \<noteq> (0, 0, 0, 0) \<and>
      birthday ?r = Some ?b"
    by (simp add: Birthday_03_04_2025)
  from same_day_birthday_excluded [of "ascii ''03.04.2025''" ?b ?now ?r ?book] h
    add_days_example_half_past_ten
  have a: "\<exists>res. get_upcoming_birthdays ?now ?book = Inr res \<and> ?r \<notin> set res"
    by blast
  have "get_upcoming_birthdays ?now ?book = Inr []"
    by (simp add: get_upcoming_birthdays_def add_days_example_half_past_ten dict_values_def
        datetime_le_def field_tuple_def)
  with a Birthday_03_04_2025 show ?thesis
    by blast
qed

section \<open>Parsing and rendering a birthday\<close>

lemma str_of_nat_digit: "d < 10 \<Longrightarrow> str_of_nat d = [48 + d]"
  by (subst str_of_nat.simps) simp

lemma str_of_nat_10:
  "d < 10 \<Longrightarrow> 0 < n \<Longrightarrow> str_of_nat (10 * n + d) = str_of_nat n @ [48 + d]"
  by (subst str_of_nat.simps) simp

lemma zfill_2_digits:
  assumes "a < 10" "b < 10"
  shows "zfill 2 (str_of_nat (10 * a + b)) = [48 + a, 48 + b]"
proof (cases "a = 0")
  case True
  with assms show ?thesis
    by (simp add: str_of_nat_digit zfill_def)
next
  case False
  with assms show ?thesis
    by (simp add: str_of_nat_10 str_of_nat_digit zfill_def)
qed

lemma str_of_nat_2_digits:
  assumes "a < 10" "b < 10" "0 < a"
  shows "str_of_nat (10 * a + b) = [48 + a, 48 + b]"
  using assms by (simp add: str_of_nat_10 str_of_nat_digit)

lemma str_of_nat_3_digits:
  assumes "a < 10" "b < 10" "c < 10" "0 < a"
  shows "str_of_nat (10 * (10 * a + b) + c) = [48 + a, 48 + b, 48 + c]"
proof -
  from assms have "0 < 10 * a + b"
    by simp
  from str_of_nat_10 [OF assms(3) this] str_of_nat_2_digits [OF assms(1,2,4)] show ?thesis
    by (simp only: append.simps)
qed

lemma str_of_nat_4_digits:
  assumes "a < 10" "b < 10" "c < 10" "d < 10" "0 < a"
  shows "str_of_nat (10 * (10 * (10 * a + b) + c) + d) = [48 + a, 48 + b, 48 + c, 48 + d]"
proof -
  from assms have "0 < 10 * (10 * a + b) + c"
    by simp
  from str_of_nat_10 [OF assms(4) this] str_of_nat_3_digits [OF assms(1,2,3,5)] show ?thesis
    by (simp only: append.simps)
qed

lemma zfill_4_digits:
  assumes "a < 10" "b < 10" "c < 10" "d < 10"
  shows "zfill 4 (str_of_nat (10 * (10 * (10 * a + b) + c) + d)) =
     [48 + a, 48 + b, 48 + c, 48 + d]"
proof (cases "a = 0")
  case False
  with assms have "str_of_nat (10 * (10 * (10 * a + b) + c) + d) =
      [48 + a, 48 + b, 48 + c, 48 + d]"
    by (intro str_of_nat_4_digits) simp_all
  then show ?thesis
    by (simp only: zfill_def) simp
next
  case a: True
  show ?thesis
  proof (cases "b = 0")
    case False
    with assms have "str_of_nat (10 * (10 * b + c) + d) = [48 + b, 48 + c, 48 + d]"
      by (intro str_of_nat_3_digits) simp_all
    with a show ?thesis
      by (simp only: zfill_def mult_0_right add_0) (simp add: numeral_eq_Suc)
  next
    case b: True
    show ?thesis
    proof (cases "c = 0")
      case False
      with assms have "str_of_nat (10 * c + d) = [48 + c, 48 + d]"
        by (intro str_of_nat_2_digits) simp_all
      with a b show ?thesis
        by (simp only: zfill_def mult_0_right add_0) (simp add: numeral_eq_Suc)
    next
      case True
      with assms have "str_of_nat d = [48 + d]"
        by (simp add: str_of_nat_digit)
      with a b True show ?thesis
        by (simp only: zfill_def mult_0_right add_0) (simp add: numeral_eq_Suc)
    qed
  qed
qed

lemma not_is_space_digit: "a < 10 \<Longrightarrow> \<not> is_space (48 + a)"
  by (simp add: is_space_def in_ranges_def in_range_def whitespace_ranges_def)

lemma is_decimal_digit: "a < 10 \<Longrightarrow> is_decimal (48 + a)"
  by (simp add: is_decimal_def in_ranges_def in_range_def decimal_ranges_def)

lemma digit_value_digit: "a < 10 \<Longrightarrow> digit_value (48 + a) = Some a"
  by (simp add: digit_value_def in_range_def decimal_ranges_def)

lemma py_int_2_digits:
  "a < 10 \<Longrightarrow> b < 10 \<Longrightarrow> py_int [48 + a, 48 + b] = Inr (10 * a + b)"
  by (simp add: py_int_def strip_def not_is_space_digit digit_value_digit)

lemma py_int_4_digits:
  "a < 10 \<Longrightarrow> b < 10 \<Longrightarrow> c < 10 \<Longrightarrow> d < 10 \<Longrightarrow>
   py_int [48 + a, 48 + b, 48 + c, 48 + d] = Inr (10 * (10 * (10 * a + b) + c) + d)"
  by (simp add: py_int_def strip_def not_is_space_digit digit_value_digit)

lemma day_group:
  assumes "a < 10" "b < 10" "1 \<le> 10 * a + b" "10 * a + b \<le> 31"
  shows "named_group re_d ((48 + a) # (48 + b) # 46 # rest) =
     ([48 + a, 48 + b], 46 # rest) #
     (if 0 < a then [([48 + a], (48 + b) # 46 # rest)] else [])"
proof -
  from assms have "a = 0 \<or> a = 1 \<or> a = 2 \<or> a = 3"
    by arith
  with assms show ?thesis
    by (auto simp: named_group_def re_d_def is_decimal_digit)
qed

lemma month_group:
  assumes "a < 10" "b < 10" "1 \<le> 10 * a + b" "10 * a + b \<le> 12"
  shows "named_group re_m ((48 + a) # (48 + b) # 46 # rest) =
     ([48 + a, 48 + b], 46 # rest) #
     (if 0 < a then [([48 + a], (48 + b) # 46 # rest)] else [])"
proof -
  from assms have "a = 0 \<or> a = 1"
    by arith
  with assms show ?thesis
    by (auto simp: named_group_def re_m_def)
qed

lemma year_group:
  assumes "a < 10" "b < 10" "c < 10" "d < 10"
  shows "named_group re_Y ((48 + a) # (48 + b) # (48 + c) # (48 + d) # rest) =
     [([48 + a, 48 + b, 48 + c, 48 + d], rest)]"
  using assms by (simp add: named_group_def re_Y_def is_decimal_digit)

lemma dot_after_digit: "b < 10 \<Longrightarrow> matches (Chr 46) ((48 + b) # rest) = []"
  by simp

lemma format_matches_digits:
  assumes "d1 < 10" "d2 < 10" "1 \<le> 10 * d1 + d2" "10 * d1 + d2 \<le> 31"
    and "m1 < 10" "m2 < 10" "1 \<le> 10 * m1 + m2" "10 * m1 + m2 \<le> 12"
    and "y1 < 10" "y2 < 10" "y3 < 10" "y4 < 10"
  shows "format_matches
      [48 + d1, 48 + d2, 46, 48 + m1, 48 + m2, 46, 48 + y1, 48 + y2, 48 + y3, 48 + y4] =
     [([48 + d1, 48 + d2], [48 + m1, 48 + m2], [48 + y1, 48 + y2, 48 + y3, 48 + y4], [])]"
  unfolding format_matches_def
  by (simp add: day_group [OF assms(1-4)] month_group [OF assms(5-8)]
      year_group [OF assms(9-12)] dot_after_digit assms)

lemma days_in_month_le_31: "1 \<le> m \<Longrightarrow> m \<le> 12 \<Longrightarrow> days_in_month y m \<le> 31"
proof -
  assume "1 \<le> m" "m \<le> 12"
  then have "m = 1 \<or> m = 2 \<or> m = 3 \<or> m = 4 \<or> m = 5 \<or> m = 6 \<or> m = 7 \<or> m = 8 \<or> m = 9 \<or>
      m = 10 \<or> m = 11 \<or> m = 12"
    by arith
  then show ?thesis
    by (auto simp: days_in_month_def DAYS_IN_MONTH_def)
qed

lemma strptime_digits:
  assumes "d1 < 10" "d2 < 10" "m1 < 10" "m2 < 10" "y1 < 10" "y2 < 10" "y3 < 10" "y4 < 10"
    and "dd = 10 * d1 + d2" "mm = 10 * m1 + m2" "yy = 10 * (10 * (10 * y1 + y2) + y3) + y4"
    and "1 \<le> yy" "1 \<le> mm" "mm \<le> 12" "1 \<le> dd" "dd \<le> days_in_month yy mm"
  shows "strptime
      [48 + d1, 48 + d2, 46, 48 + m1, 48 + m2, 46, 48 + y1, 48 + y2, 48 + y3, 48 + y4] =
     Inr \<lparr>year = yy, month = mm, day = dd, hour = 0, minute = 0, second = 0,
          microsecond = 0\<rparr>"
proof -
  from assms(13,14,16) have "dd \<le> 31"
    using days_in_month_le_31 [of mm yy] by simp
  with assms have f: "format_matches
      [48 + d1, 48 + d2, 46, 48 + m1, 48 + m2, 46, 48 + y1, 48 + y2, 48 + y3, 48 + y4] =
     [([48 + d1, 48 + d2], [48 + m1, 48 + m2], [48 + y1, 48 + y2, 48 + y3, 48 + y4], [])]"
    by (intro format_matches_digits) simp_all
  have d: "py_int [48 + d1, 48 + d2] = Inr dd"
    using assms by (simp only: py_int_2_digits)
  have m: "py_int [48 + m1, 48 + m2] = Inr mm"
    using assms by (simp only: py_int_2_digits)
  have y: "py_int [48 + y1, 48 + y2, 48 + y3, 48 + y4] = Inr yy"
    using assms by (simp only: py_int_4_digits)
  from assms have "yy \<le> 9999"
    by simp
  with assms(12-16) have n: "datetime_new yy mm dd =
      Inr \<lparr>year = yy, month = mm, day = dd, hour = 0, minute = 0, second = 0,
           microsecond = 0\<rparr>"
    by (simp add: datetime_new_def MINYEAR_def MAXYEAR_def)
  show ?thesis
    by (simp only: strptime_def f d m y n list.case prod.case sum.case) simp
qed

lemma ascii_digit_value: "is_ascii_digit c \<Longrightarrow> c - 48 < 10 \<and> c = 48 + (c - 48)"
  by (auto simp: is_ascii_digit_def)

lemma Birthday_strptime: "strptime s = Inr b \<Longrightarrow> Birthday s = Inr b"
  by (simp add: Birthday_def)

lemma Record_str_birthday:
  "birthday r = Some b \<Longrightarrow>
   Record_str yf r =
     ascii ''Contact name: '' @ name r @ ascii '', phones: '' @ join (ascii '', '') (phones r) @
     ascii '', Birthday: '' @ strftime_dmY yf b"
  by (simp add: Record_str_def)

lemma strptime_valid:
  assumes "strptime t = Inr b"
  shows "b = \<lparr>year = year b, month = month b, day = day b, hour = 0, minute = 0, second = 0,
              microsecond = 0\<rparr> \<and>
     1 \<le> year b \<and> year b \<le> 9999 \<and> 1 \<le> month b \<and> month b \<le> 12 \<and>
     1 \<le> day b \<and> day b \<le> days_in_month (year b) (month b)"
proof -
  from assms obtain y m d where "datetime_new y m d = Inr b"
    by (auto simp: strptime_def split: list.splits prod.splits if_splits sum.splits)
  then show ?thesis
    by (auto simp: datetime_new_def MINYEAR_def MAXYEAR_def split: if_splits)
qed

lemma digits_of_year:
  "(y::nat) =
     10 * (10 * (10 * (y div 10 div 10 div 10) + y div 10 div 10 mod 10) + y div 10 mod 10) +
     y mod 10"
proof -
  have 1: "y = 10 * (y div 10) + y mod 10" by simp
  have 2: "y div 10 = 10 * (y div 10 div 10) + y div 10 mod 10" by simp
  have 3: "y div 10 div 10 = 10 * (y div 10 div 10 div 10) + y div 10 div 10 mod 10" by simp
  show ?thesis
    by (subst (1) 1, subst (1) 2, subst (1) 3) (rule refl)
qed

lemma top_digit: "(y::nat) \<le> 9999 \<Longrightarrow> y div 10 div 10 div 10 < 10"
  by (simp add: div_mult2_eq [symmetric] less_mult_imp_div_less)

lemma day_digit: "(d::nat) \<le> 31 \<Longrightarrow> d div 10 < 10"
  by (simp add: less_mult_imp_div_less)

lemma top_digit_pos: "(1000::nat) \<le> y \<Longrightarrow> 0 < y div 10 div 10 div 10"
  by (simp add: div_mult2_eq [symmetric] div_greater_zero_iff)

lemma zfill_2_zero: "zfill 2 (str_of_nat 0) = [48, 48]"
  by (simp add: str_of_nat_digit zfill_def)

lemma Birthday_rendering_format:
  assumes "Birthday t = Inr b" and "yf = Zero_padded \<or> 1000 \<le> year b"
  shows "(\<exists>e1 e2 n1 n2 z1 z2 z3 z4.
       is_ascii_digit e1 \<and> is_ascii_digit e2 \<and> is_ascii_digit n1 \<and> is_ascii_digit n2 \<and>
       is_ascii_digit z1 \<and> is_ascii_digit z2 \<and> is_ascii_digit z3 \<and> is_ascii_digit z4 \<and>
       strftime_dmY yf b = [e1, e2, 46, n1, n2, 46, z1, z2, z3, z4] \<and>
       Birthday_str b = [z1, z2, z3, z4, 45, n1, n2, 45, e1, e2] @ ascii '' 00:00:00'') \<and>
     Birthday (strftime_dmY yf b) = Inr b"
proof -
  from assms(1) have assms': "strptime t = Inr b"
    by (rule Birthday_Inr)
  from strptime_valid [OF assms'] have
    b: "b = \<lparr>year = year b, month = month b, day = day b, hour = 0, minute = 0, second = 0,
              microsecond = 0\<rparr>" and
    v: "1 \<le> year b" "year b \<le> 9999" "1 \<le> month b" "month b \<le> 12"
      "1 \<le> day b" "day b \<le> days_in_month (year b) (month b)"
    by blast+
  from v have d31: "day b \<le> 31"
    using days_in_month_le_31 [of "month b" "year b"] by simp
  define a1 a2 b1 b2 c1 c2 c3 c4 where
    "a1 = day b div 10" and "a2 = day b mod 10" and
    "b1 = month b div 10" and "b2 = month b mod 10" and
    "c1 = year b div 10 div 10 div 10" and "c2 = year b div 10 div 10 mod 10" and
    "c3 = year b div 10 mod 10" and "c4 = year b mod 10"
  note defs = this
  from v(4) have "month b \<le> 31"
    by simp
  with v(2) d31
  have lt: "a1 < 10" "a2 < 10" "b1 < 10" "b2 < 10" "c1 < 10" "c2 < 10" "c3 < 10" "c4 < 10"
    unfolding defs by (simp_all only: top_digit day_digit pos_mod_bound zero_less_numeral)
  have dd: "day b = 10 * a1 + a2" and mm: "month b = 10 * b1 + b2"
    by (simp_all add: defs)
  have yy: "year b = 10 * (10 * (10 * c1 + c2) + c3) + c4"
    unfolding defs by (rule digits_of_year)
  let ?s = "[48 + a1, 48 + a2, 46, 48 + b1, 48 + b2, 46, 48 + c1, 48 + c2, 48 + c3, 48 + c4]"
  have "strptime ?s =
      Inr \<lparr>year = year b, month = month b, day = day b, hour = 0, minute = 0, second = 0,
              microsecond = 0\<rparr>"
    using lt dd mm yy v(1,3,4,5,6) by (rule strptime_digits)
  then have p: "strptime ?s = Inr b"
    by (simp only: b [symmetric])
  have zd: "zfill 2 (str_of_nat (day b)) = [48 + a1, 48 + a2]"
    unfolding dd using lt by (intro zfill_2_digits)
  have zm: "zfill 2 (str_of_nat (month b)) = [48 + b1, 48 + b2]"
    unfolding mm using lt by (intro zfill_2_digits)
  have zy: "zfill 4 (str_of_nat (year b)) = [48 + c1, 48 + c2, 48 + c3, 48 + c4]"
    unfolding yy using lt by (intro zfill_4_digits)
  have "strftime_dmY Zero_padded b = ?s"
    by (simp add: strftime_dmY_def zd zm zy)
  moreover have "strftime_dmY Unpadded b = ?s" if "1000 \<le> year b"
  proof -
    from that have "0 < c1"
      unfolding defs by (rule top_digit_pos)
    with lt have "str_of_nat (year b) = [48 + c1, 48 + c2, 48 + c3, 48 + c4]"
      unfolding yy by (intro str_of_nat_4_digits)
    then show ?thesis
      by (simp add: strftime_dmY_def zd zm)
  qed
  ultimately have f: "strftime_dmY yf b = ?s"
    using assms(2) by (cases yf) auto
  have q: "strptime (strftime_dmY yf b) = Inr b"
    by (simp only: f p)
  from strptime_midnight [OF assms']
  have tz: "hour b = 0" "minute b = 0" "second b = 0" "microsecond b = 0"
    by simp_all
  have g: "Birthday_str b =
      [48 + c1, 48 + c2, 48 + c3, 48 + c4, 45, 48 + b1, 48 + b2, 45, 48 + a1, 48 + a2] @
      ascii '' 00:00:00''"
    by (simp add: Birthday_str_def datetime_str_def zd zm zy tz zfill_2_zero ascii_def)
  from lt have dg: "is_ascii_digit (48 + a1)" "is_ascii_digit (48 + a2)"
    "is_ascii_digit (48 + b1)" "is_ascii_digit (48 + b2)" "is_ascii_digit (48 + c1)"
    "is_ascii_digit (48 + c2)" "is_ascii_digit (48 + c3)" "is_ascii_digit (48 + c4)"
    by (simp_all add: is_ascii_digit_def)
  from dg f g have "\<exists>e1 e2 n1 n2 z1 z2 z3 z4.
       is_ascii_digit e1 \<and> is_ascii_digit e2 \<and> is_ascii_digit n1 \<and> is_ascii_digit n2 \<and>
       is_ascii_digit z1 \<and> is_ascii_digit z2 \<and> is_ascii_digit z3 \<and> is_ascii_digit z4 \<and>
       strftime_dmY yf b = [e1, e2, 46, n1, n2, 46, z1, z2, z3, z4] \<and>
       Birthday_str b = [z1, z2, z3, z4, 45, n1, n2, 45, e1, e2] @ ascii '' 00:00:00''"
    apply -
    apply (rule exI [of _ "48 + a1"], rule exI [of _ "48 + a2"])
    apply (rule exI [of _ "48 + b1"], rule exI [of _ "48 + b2"])
    apply (rule exI [of _ "48 + c1"], rule exI [of _ "48 + c2"])
    apply (rule exI [of _ "48 + c3"], rule exI [of _ "48 + c4"])
    apply (intro conjI; assumption)
    done
  moreover from q have "Birthday (strftime_dmY yf b) = Inr b"
    by (rule Birthday_strptime)
  ultimately show ?thesis
    by (rule conjI)
qed

lemma Birthday_01_01_0999: "Birthday (ascii ''01.01.0999'') =
   Inr \<lparr>year = 999, month = 1, day = 1, hour = 0, minute = 0, second = 0, microsecond = 0\<rparr>"
  by (simp add: Birthday_def ascii_def strptime_defs char_class_defs)

lemma Birthday_1_4_1990: "Birthday (ascii ''1.4.1990'') =
   Inr \<lparr>year = 1990, month = 4, day = 1, hour = 0, minute = 0, second = 0, microsecond = 0\<rparr>"
  by (simp add: Birthday_def ascii_def strptime_defs char_class_defs)

lemma Birthday_str_10_04_1990:
  "Birthday_str
     \<lparr>year = 1990, month = 4, day = 10, hour = 0, minute = 0, second = 0, microsecond = 0\<rparr> =
   ascii ''1990-04-10 00:00:00''"
  by (simp add: Birthday_str_def datetime_str_def zfill_def str_of_nat.simps ascii_def)

text \<open>
  Claim C4 as stated fails where \<^verbatim>\<open>strftime\<close> does not pad \<^verbatim>\<open>%Y\<close> (glibc with CPython up to
  3.12): \<^verbatim>\<open>01.01.0999\<close> is a valid date in the format, it is parsed to year 999, and it is
  rendered as \<^verbatim>\<open>01.01.999\<close>.
\<close>

theorem Birthday_round_trip_counterexample:
  "Birthday (ascii ''01.01.0999'') =
     Inr \<lparr>year = 999, month = 1, day = 1, hour = 0, minute = 0, second = 0, microsecond = 0\<rparr> \<and>
   strftime_dmY Unpadded
     \<lparr>year = 999, month = 1, day = 1, hour = 0, minute = 0, second = 0, microsecond = 0\<rparr> =
     ascii ''01.01.999'' \<and>
   ascii ''01.01.999'' \<noteq> ascii ''01.01.0999''"
proof -
  have "strftime_dmY Unpadded
     \<lparr>year = 999, month = 1, day = 1, hour = 0, minute = 0, second = 0, microsecond = 0\<rparr> =
     ascii ''01.01.999''"
    by (simp add: strftime_dmY_def zfill_def str_of_nat.simps ascii_def)
  moreover have "ascii ''01.01.999'' \<noteq> ascii ''01.01.0999''"
    by (simp add: ascii_def)
  ultimately show ?thesis
    using Birthday_01_01_0999 by blast
qed

text \<open>
  Claim C4, amended. Let \<open>s\<close> be a string \<^verbatim>\<open>DD.MM.YYYY\<close> of ASCII digits that denotes a valid
  date of the years 1 to 9999. Then \<^verbatim>\<open>Birthday(s)\<close> succeeds and stores that date at
  midnight. Rendering the stored date with \<^verbatim>\<open>%d.%m.%Y\<close>, as the rendering of a record does,
  gives back \<open>s\<close> on every platform when the year is at least 1000, and for the years below
  1000 where the platform pads the year to four digits. Moreover, for any constructed
  birthday and under the same condition on year and platform, that rendering is a string
  \<^verbatim>\<open>DD.MM.YYYY\<close> of ASCII digits which \<^verbatim>\<open>Birthday\<close> parses back to the same value. The
  birthday's own \<^verbatim>\<open>__str__\<close>, inherited from \<^verbatim>\<open>Field\<close>, is never used for this: it renders
  the same digits as \<^verbatim>\<open>YYYY-MM-DD 00:00:00\<close>.
\<close>

theorem Birthday_round_trip:
  assumes "is_ascii_digit d1" "is_ascii_digit d2" "is_ascii_digit m1" "is_ascii_digit m2"
    and "is_ascii_digit y1" "is_ascii_digit y2" "is_ascii_digit y3" "is_ascii_digit y4"
    and "s = [d1, d2, 46, m1, m2, 46, y1, y2, y3, y4]"
    and "dd = 10 * (d1 - 48) + (d2 - 48)"
    and "mm = 10 * (m1 - 48) + (m2 - 48)"
    and "yy = 1000 * (y1 - 48) + 100 * (y2 - 48) + 10 * (y3 - 48) + (y4 - 48)"
    and "1 \<le> yy" "1 \<le> mm" "mm \<le> 12" "1 \<le> dd" "dd \<le> days_in_month yy mm"
  shows "(\<exists>b. Birthday s = Inr b \<and>
       b = \<lparr>year = yy, month = mm, day = dd, hour = 0, minute = 0, second = 0,
            microsecond = 0\<rparr> \<and>
       strftime_dmY Zero_padded b = s \<and>
       (1000 \<le> yy \<longrightarrow> strftime_dmY Unpadded b = s) \<and>
       (\<forall>r yf. birthday r = Some b \<and> (yf = Zero_padded \<or> 1000 \<le> yy) \<longrightarrow>
          Record_str yf r =
            ascii ''Contact name: '' @ name r @ ascii '', phones: '' @
            join (ascii '', '') (phones r) @ ascii '', Birthday: '' @ s) \<and>
       Birthday_str b = [y1, y2, y3, y4, 45, m1, m2, 45, d1, d2] @ ascii '' 00:00:00'') \<and>
     (\<forall>t b yf. Birthday t = Inr b \<and> (yf = Zero_padded \<or> 1000 \<le> year b) \<longrightarrow>
        (\<exists>e1 e2 n1 n2 z1 z2 z3 z4.
           is_ascii_digit e1 \<and> is_ascii_digit e2 \<and> is_ascii_digit n1 \<and> is_ascii_digit n2 \<and>
           is_ascii_digit z1 \<and> is_ascii_digit z2 \<and> is_ascii_digit z3 \<and> is_ascii_digit z4 \<and>
           strftime_dmY yf b = [e1, e2, 46, n1, n2, 46, z1, z2, z3, z4] \<and>
           Birthday_str b = [z1, z2, z3, z4, 45, n1, n2, 45, e1, e2] @ ascii '' 00:00:00'') \<and>
        Birthday (strftime_dmY yf b) = Inr b)"
proof (rule conjI)
  let ?b = "\<lparr>year = yy, month = mm, day = dd, hour = 0, minute = 0, second = 0,
          microsecond = 0\<rparr>"
  define a1 a2 b1 b2 c1 c2 c3 c4 where
    "a1 = d1 - 48" and "a2 = d2 - 48" and "b1 = m1 - 48" and "b2 = m2 - 48" and
    "c1 = y1 - 48" and "c2 = y2 - 48" and "c3 = y3 - 48" and "c4 = y4 - 48"
  note defs = this
  have lt: "a1 < 10" "a2 < 10" "b1 < 10" "b2 < 10" "c1 < 10" "c2 < 10" "c3 < 10" "c4 < 10"
    using assms(1-8) by (simp_all add: defs ascii_digit_value)
  have ch: "d1 = 48 + a1" "d2 = 48 + a2" "m1 = 48 + b1" "m2 = 48 + b2"
    "y1 = 48 + c1" "y2 = 48 + c2" "y3 = 48 + c3" "y4 = 48 + c4"
    using assms(1-8) by (simp_all add: defs is_ascii_digit_def)
  have s: "s = [48 + a1, 48 + a2, 46, 48 + b1, 48 + b2, 46, 48 + c1, 48 + c2, 48 + c3, 48 + c4]"
    by (simp only: assms(9) ch [symmetric])
  have dd: "dd = 10 * a1 + a2" and mm: "mm = 10 * b1 + b2"
    by (simp_all only: assms(10,11) defs)
  have yy: "yy = 10 * (10 * (10 * c1 + c2) + c3) + c4"
    by (simp add: assms(12) defs)
  have "strptime s = Inr ?b"
    unfolding s using lt dd mm yy assms(13-17) by (rule strptime_digits)
  then have p: "Birthday s = Inr ?b"
    by (rule Birthday_strptime)
  have zd: "zfill 2 (str_of_nat dd) = [48 + a1, 48 + a2]"
    unfolding dd using lt by (intro zfill_2_digits)
  have zm: "zfill 2 (str_of_nat mm) = [48 + b1, 48 + b2]"
    unfolding mm using lt by (intro zfill_2_digits)
  have zy: "zfill 4 (str_of_nat yy) = [48 + c1, 48 + c2, 48 + c3, 48 + c4]"
    unfolding yy using lt by (intro zfill_4_digits)
  have f: "strftime_dmY Zero_padded ?b = s"
    by (simp add: strftime_dmY_def zd zm zy s)
  have u: "strftime_dmY Unpadded ?b = s" if "1000 \<le> yy"
  proof -
    from that yy lt have "0 < c1"
      by (cases "c1 = 0") simp_all
    with lt have "str_of_nat yy = [48 + c1, 48 + c2, 48 + c3, 48 + c4]"
      unfolding yy by (intro str_of_nat_4_digits)
    then show ?thesis
      by (simp add: strftime_dmY_def zd zm s)
  qed
  have r: "Record_str yf r =
          ascii ''Contact name: '' @ name r @ ascii '', phones: '' @
          join (ascii '', '') (phones r) @ ascii '', Birthday: '' @ s"
    if "birthday r = Some ?b \<and> (yf = Zero_padded \<or> 1000 \<le> yy)" for r yf
  proof -
    from that f u have "strftime_dmY yf ?b = s"
      by (cases yf) auto
    with that Record_str_birthday [of r ?b yf] show ?thesis
      by (simp only:)
  qed
  have g: "Birthday_str ?b = [y1, y2, y3, y4, 45, m1, m2, 45, d1, d2] @ ascii '' 00:00:00''"
    unfolding ch
    by (simp add: Birthday_str_def datetime_str_def zd zm zy zfill_2_zero ascii_def)
  from p f u r g show "\<exists>b. Birthday s = Inr b \<and>
       b = \<lparr>year = yy, month = mm, day = dd, hour = 0, minute = 0, second = 0,
            microsecond = 0\<rparr> \<and>
       strftime_dmY Zero_padded b = s \<and>
       (1000 \<le> yy \<longrightarrow> strftime_dmY Unpadded b = s) \<and>
       (\<forall>r yf. birthday r = Some b \<and> (yf = Zero_padded \<or> 1000 \<le> yy) \<longrightarrow>
          Record_str yf r =
            ascii ''Contact name: '' @ name r @ ascii '', phones: '' @
            join (ascii '', '') (phones r) @ ascii '', Birthday: '' @ s) \<and>
       Birthday_str b = [y1, y2, y3, y4, 45, m1, m2, 45, d1, d2] @ ascii '' 00:00:00''"
    by blast
next
  show "\<forall>t b yf. Birthday t = Inr b \<and> (yf = Zero_padded \<or> 1000 \<le> year b) \<longrightarrow>
        (\<exists>e1 e2 n1 n2 z1 z2 z3 z4.
           is_ascii_digit e1 \<and> is_ascii_digit e2 \<and> is_ascii_digit n1 \<and> is_ascii_digit n2 \<and>
           is_ascii_digit z1 \<and> is_ascii_digit z2 \<and> is_ascii_digit z3 \<and> is_ascii_digit z4 \<and>
           strftime_dmY yf b = [e1, e2, 46, n1, n2, 46, z1, z2, z3, z4] \<and>
           Birthday_str b = [z1, z2, z3, z4, 45, n1, n2, 45, e1, e2] @ ascii '' 00:00:00'') \<and>
        Birthday (strftime_dmY yf b) = Inr b"
  proof (intro allI impI)
    fix t b yf
    assume "Birthday t = Inr b \<and> (yf = Zero_padded \<or> 1000 \<le> year b)"
    then have "Birthday t = Inr b" and "yf = Zero_padded \<or> 1000 \<le> year b"
      by blast+
    then show "(\<exists>e1 e2 n1 n2 z1 z2 z3 z4.
           is_ascii_digit e1 \<and> is_ascii_digit e2 \<and> is_ascii_digit n1 \<and> is_ascii_digit n2 \<and>
           is_ascii_digit z1 \<and> is_ascii_digit z2 \<and> is_ascii_digit z3 \<and> is_ascii_digit z4 \<and>
           strftime_dmY yf b = [e1, e2, 46, n1, n2, 46, z1, z2, z3, z4] \<and>
           Birthday_str b = [z1, z2, z3, z4, 45, n1, n2, 45, e1, e2] @ ascii '' 00:00:00'') \<and>
        Birthday (strftime_dmY yf b) = Inr b"
      by (rule Birthday_rendering_format)
  qed
qed

theorem Birthday_round_trip_witness:
  "Birthday (ascii ''10.04.1990'') =
     Inr \<lparr>year = 1990, month = 4, day = 10, hour = 0, minute = 0, second = 0, microsecond = 0\<rparr> \<and>
   strftime_dmY Zero_padded
     \<lparr>year = 1990, month = 4, day = 10, hour = 0, minute = 0, second = 0, microsecond = 0\<rparr> =
     ascii ''10.04.1990'' \<and>
   strftime_dmY Unpadded
     \<lparr>year = 1990, month = 4, day = 10, hour = 0, minute = 0, second = 0, microsecond = 0\<rparr> =
     ascii ''10.04.1990'' \<and>
   Record_str Unpadded
     \<lparr>name = ascii ''John'', phones = [ascii ''1234567890''],
      birthday = Some \<lparr>year = 1990, month = 4, day = 10, hour = 0, minute = 0, second = 0,
                        microsecond = 0\<rparr>\<rparr> =
     ascii ''Contact name: John, phones: 1234567890, Birthday: 10.04.1990'' \<and>
   Birthday_str
     \<lparr>year = 1990, month = 4, day = 10, hour = 0, minute = 0, second = 0, microsecond = 0\<rparr> =
     ascii ''1990-04-10 00:00:00'' \<and>
   Birthday (strftime_dmY Unpadded
     \<lparr>year = 1990, month = 4, day = 1, hour = 0, minute = 0, second = 0, microsecond = 0\<rparr>) =
     Inr \<lparr>year = 1990, month = 4, day = 1, hour = 0, minute = 0, second = 0, microsecond = 0\<rparr> \<and>
   Birthday (strftime_dmY Zero_padded
     \<lparr>year = 999, month = 1, day = 1, hour = 0, minute = 0, second = 0, microsecond = 0\<rparr>) =
     Inr \<lparr>year = 999, month = 1, day = 1, hour = 0, minute = 0, second = 0, microsecond = 0\<rparr>"
proof -
  let ?b = "\<lparr>year = 1990, month = 4, day = 10, hour = 0, minute = 0, second = 0,
             microsecond = 0\<rparr>"
  let ?c = "\<lparr>year = 1990, month = 4, day = 1, hour = 0, minute = 0, second = 0,
             microsecond = 0\<rparr>"
  let ?e = "\<lparr>year = 999, month = 1, day = 1, hour = 0, minute = 0, second = 0,
             microsecond = 0\<rparr>"
  let ?r = "\<lparr>name = ascii ''John'', phones = [ascii ''1234567890''], birthday = Some ?b\<rparr>"
  have d: "is_ascii_digit 49" "is_ascii_digit 48" "is_ascii_digit 52" "is_ascii_digit 57"
    by (simp_all add: is_ascii_digit_def)
  have s: "ascii ''10.04.1990'' = [49, 48, 46, 48, 52, 46, 49, 57, 57, 48]"
    by (simp add: ascii_def)
  have n: "(10::nat) = 10 * (49 - 48) + (48 - 48)" "(4::nat) = 10 * (48 - 48) + (52 - 48)"
    "(1990::nat) = 1000 * (49 - 48) + 100 * (57 - 48) + 10 * (57 - 48) + (48 - 48)"
    by simp_all
  have v: "(1::nat) \<le> 1990" "(1::nat) \<le> 4" "(4::nat) \<le> 12" "(1::nat) \<le> 10"
    "10 \<le> days_in_month 1990 4"
    by (simp_all add: days_in_month_def DAYS_IN_MONTH_def)
  note t = Birthday_round_trip [OF d(1) d(2) d(2) d(3) d(1) d(4) d(4) d(2) s n v]
  from t obtain b where
    b: "Birthday (ascii ''10.04.1990'') = Inr b" "b = ?b"
      "strftime_dmY Zero_padded b = ascii ''10.04.1990''"
      "1000 \<le> (1990::nat) \<longrightarrow> strftime_dmY Unpadded b = ascii ''10.04.1990''"
      "\<forall>r yf. birthday r = Some b \<and> (yf = Zero_padded \<or> 1000 \<le> (1990::nat)) \<longrightarrow>
          Record_str yf r =
            ascii ''Contact name: '' @ name r @ ascii '', phones: '' @
            join (ascii '', '') (phones r) @ ascii '', Birthday: '' @ ascii ''10.04.1990''"
      "Birthday_str b = [49, 57, 57, 48, 45, 48, 52, 45, 49, 48] @ ascii '' 00:00:00''"
    by blast
  from b(1,2) have 1: "Birthday (ascii ''10.04.1990'') = Inr ?b"
    by simp
  from b(2,3) have 2: "strftime_dmY Zero_padded ?b = ascii ''10.04.1990''"
    by simp
  from b(2,4) have 3: "strftime_dmY Unpadded ?b = ascii ''10.04.1990''"
    by simp
  have "birthday ?r = Some b \<and> (Unpadded = Zero_padded \<or> 1000 \<le> (1990::nat))"
    using b(2) by simp
  with b(5) have "Record_str Unpadded ?r =
      ascii ''Contact name: '' @ name ?r @ ascii '', phones: '' @
      join (ascii '', '') (phones ?r) @ ascii '', Birthday: '' @ ascii ''10.04.1990''"
    by blast
  then have 4: "Record_str Unpadded ?r =
      ascii ''Contact name: John, phones: 1234567890, Birthday: 10.04.1990''"
    by (simp add: ascii_def)
  from b(2,6) have 5: "Birthday_str ?b = ascii ''1990-04-10 00:00:00''"
    by (simp add: ascii_def)
  have "Birthday (ascii ''1.4.1990'') = Inr ?c \<and> (Unpadded = Zero_padded \<or> 1000 \<le> year ?c)"
    by (simp add: Birthday_1_4_1990)
  with t have 6: "Birthday (strftime_dmY Unpadded ?c) = Inr ?c"
    by blast
  have "Birthday (ascii ''01.01.0999'') = Inr ?e \<and>
      (Zero_padded = Zero_padded \<or> 1000 \<le> year ?e)"
    by (simp add: Birthday_01_01_0999)
  with t have 7: "Birthday (strftime_dmY Zero_padded ?e) = Inr ?e"
    by blast
  from 1 2 3 4 5 6 7 show ?thesis
    by blast
qed

section \<open>Inputs at the edges of the model\<close>

text \<open>
  Values computed by the model where the library's behaviour is easy to get wrong: a decimal
  digit of another script is read by \<^verbatim>\<open>strptime\<close> and rendered in ASCII; year 0 and trailing
  text are rejected; adding days crosses a leap day and overflows after year 9999.
\<close>

lemma Birthday_arabic_indic_digit:
  "Birthday [49, 1632, 46, 48, 52, 46, 49, 57, 57, 48] =
     Inr \<lparr>year = 1990, month = 4, day = 10, hour = 0, minute = 0, second = 0, microsecond = 0\<rparr> \<and>
   strftime_dmY Zero_padded
     \<lparr>year = 1990, month = 4, day = 10, hour = 0, minute = 0, second = 0, microsecond = 0\<rparr> =
     [49, 48, 46, 48, 52, 46, 49, 57, 57, 48]"
  by (simp add: Birthday_def strptime_defs char_class_defs strftime_dmY_def zfill_def
      str_of_nat.simps)

lemma Birthday_year_zero:
  "Birthday (ascii ''01.01.0000'') = Inl (ValueError ''Invalid date format. Use DD.MM.YYYY'')"
  by (simp add: Birthday_def ascii_def strptime_defs char_class_defs)

lemma Birthday_unconverted:
  "Birthday (ascii ''10.04.19900'') = Inl (ValueError ''Invalid date format. Use DD.MM.YYYY'')"
  by (simp add: Birthday_def ascii_def strptime_defs char_class_defs)

lemma add_days_across_leap_day:
  "datetime_add_days
     \<lparr>year = 2024, month = 2, day = 28, hour = 13, minute = 5, second = 0, microsecond = 7\<rparr> 7 =
   Inr \<lparr>year = 2024, month = 3, day = 6, hour = 13, minute = 5, second = 0, microsecond = 7\<rparr>"
  by (simp add: datetime_add_days_def add_days_7 next_day_def days_in_month_def
      DAYS_IN_MONTH_def is_leap_def MAXYEAR_def)

lemma add_days_overflow:
  "datetime_add_days
     \<lparr>year = 9999, month = 12, day = 25, hour = 0, minute = 0, second = 0, microsecond = 0\<rparr> 7 =
   Inl OverflowError"
  by (simp add: datetime_add_days_def add_days_7 next_day_def days_in_month_def
      DAYS_IN_MONTH_def is_leap_def MAXYEAR_def)

end
